(* ===== verification/Prelude.thy ===== *)
theory Prelude
  imports Main
begin

text \<open>
  Shared vocabulary of the development: the JavaScript string and collection
  primitives that the extension's code calls (\<open>String.prototype\<close>
  \<open>startsWith\<close>, \<open>endsWith\<close>, \<open>js_includes\<close>, \<open>split\<close>, \<open>trim\<close>,
  \<open>toLowerCase\<close>, the regular-expression replacements the code applies, and the
  insertion-ordered \<open>Set\<close> of \<open>[...new Set(xs)]\<close>), written as executable HOL
  functions on \<open>string\<close>, with the lemmas the component theories share.
  Strings are byte strings: the model is exact on ASCII text, which is what host
  names and the separators the code looks for consist of.
\<close>

named_theorems js_simps "evaluation and rewriting rules for the JavaScript string primitives"

type_synonym js_string = string

subsection \<open>Characters\<close>

definition is_js_ws :: "char \<Rightarrow> bool" where
  \<comment> \<open>the ASCII part of the \<open>\s\<close> class and of what \<open>trim\<close> removes\<close>
  "is_js_ws c \<longleftrightarrow> (let n = of_char c :: nat in (9 \<le> n \<and> n \<le> 13) \<or> n = 32)"

definition is_upper :: "char \<Rightarrow> bool" where
  "is_upper c \<longleftrightarrow> (let n = of_char c :: nat in 65 \<le> n \<and> n \<le> 90)"

definition is_az :: "char \<Rightarrow> bool" where
  "is_az c \<longleftrightarrow> (let n = of_char c :: nat in 97 \<le> n \<and> n \<le> 122)"

definition is_09 :: "char \<Rightarrow> bool" where
  "is_09 c \<longleftrightarrow> (let n = of_char c :: nat in 48 \<le> n \<and> n \<le> 57)"

definition js_lower_char :: "char \<Rightarrow> char" where
  "js_lower_char c = (if is_upper c then char_of (of_char c + (32::nat)) else c)"

definition js_lower :: "js_string \<Rightarrow> js_string" where
  \<comment> \<open>\<open>s.toLowerCase()\<close>\<close>
  "js_lower s = map js_lower_char s"

subsection \<open>Prefixes, suffixes, substrings\<close>

fun starts_with :: "js_string \<Rightarrow> js_string \<Rightarrow> bool" where
  \<comment> \<open>\<open>s.startsWith(p)\<close>\<close>
  "starts_with s [] = True"
| "starts_with [] (c # cs) = False"
| "starts_with (x # xs) (c # cs) = (x = c \<and> starts_with xs cs)"

definition ends_with :: "js_string \<Rightarrow> js_string \<Rightarrow> bool" where
  \<comment> \<open>\<open>s.endsWith(p)\<close>\<close>
  "ends_with s p = starts_with (rev s) (rev p)"

fun js_includes :: "js_string \<Rightarrow> js_string \<Rightarrow> bool" where
  \<comment> \<open>\<open>s.includes(t)\<close>: some position of \<open>s\<close> starts with \<open>t\<close>\<close>
  "js_includes [] t = (t = [])"
| "js_includes (x # xs) t = (starts_with (x # xs) t \<or> js_includes xs t)"

definition strip_prefix :: "js_string \<Rightarrow> js_string \<Rightarrow> js_string" where
  \<comment> \<open>\<open>s.replace(/^p/, '')\<close> for a literal pattern \<open>p\<close>\<close>
  "strip_prefix p s = (if starts_with s p then drop (length p) s else s)"

subsection \<open>Splitting and trimming\<close>

fun split_char :: "char \<Rightarrow> js_string \<Rightarrow> js_string list" where
  \<comment> \<open>\<open>s.split(d)\<close> for a one-character separator: never empty\<close>
  "split_char d [] = [[]]"
| "split_char d (c # cs) =
     (if c = d then [] # split_char d cs
      else (case split_char d cs of w # ws \<Rightarrow> (c # w) # ws | [] \<Rightarrow> [[c]]))"

fun split_first :: "js_string \<Rightarrow> js_string \<Rightarrow> js_string" where
  \<comment> \<open>\<open>s.split(sep)[0]\<close> for a non-empty separator: the text before its first occurrence\<close>
  "split_first sep [] = []"
| "split_first sep (c # cs) =
     (if sep \<noteq> [] \<and> starts_with (c # cs) sep then [] else c # split_first sep cs)"

definition js_trim :: "js_string \<Rightarrow> js_string" where
  \<comment> \<open>\<open>s.trim()\<close>\<close>
  "js_trim s = rev (dropWhile is_js_ws (rev (dropWhile is_js_ws s)))"

definition strip_trailing :: "char \<Rightarrow> js_string \<Rightarrow> js_string" where
  \<comment> \<open>\<open>s.replace(/c+$/, '')\<close>\<close>
  "strip_trailing c s = rev (dropWhile (\<lambda>x. x = c) (rev s))"

fun js_join :: "js_string \<Rightarrow> js_string list \<Rightarrow> js_string" where
  \<comment> \<open>\<open>xs.join(sep)\<close>\<close>
  "js_join sep [] = []"
| "js_join sep [x] = x"
| "js_join sep (x # y # zs) = x @ sep @ js_join sep (y # zs)"

subsection \<open>The insertion-ordered set of \<open>[...new Set(xs)]\<close>\<close>

fun js_set_list :: "'a list \<Rightarrow> 'a list \<Rightarrow> 'a list" where
  \<comment> \<open>\<open>seen\<close> are the elements already inserted; the first occurrence of each element wins\<close>
  "js_set_list seen [] = []"
| "js_set_list seen (x # xs) =
     (if x \<in> set seen then js_set_list seen xs else x # js_set_list (x # seen) xs)"

definition js_set :: "'a list \<Rightarrow> 'a list" where
  "js_set xs = js_set_list [] xs"

subsection \<open>Numbers\<close>

definition digit_val :: "char \<Rightarrow> nat" where
  \<comment> \<open>the value of a digit of radix up to 36; 36 for a character that is no digit\<close>
  "digit_val c =
     (let n = of_char c :: nat in
      if 48 \<le> n \<and> n \<le> 57 then n - 48
      else if 97 \<le> n \<and> n \<le> 122 then n - 87
      else if 65 \<le> n \<and> n \<le> 90 then n - 55 else 36)"

definition digits_value :: "nat \<Rightarrow> js_string \<Rightarrow> nat" where
  "digits_value r ds = foldl (\<lambda>n c. n * r + digit_val c) 0 ds"

definition parse_sign :: "js_string \<Rightarrow> int \<times> js_string" where
  \<comment> \<open>steps 4-6 of \<open>parseInt\<close>: an optional sign\<close>
  "parse_sign s =
     (case s of
        c # r \<Rightarrow> if c = CHR ''-'' then (-1, r) else if c = CHR ''+'' then (1, r) else (1, s)
      | [] \<Rightarrow> (1, s))"

definition parse_radix :: "js_string \<Rightarrow> nat \<times> js_string" where
  \<comment> \<open>steps 8-11 with no radix given: a \<open>0x\<close> or \<open>0X\<close> prefix selects radix 16\<close>
  "parse_radix s = (if take 2 s = ''0x'' \<or> take 2 s = ''0X'' then (16, drop 2 s) else (10, s))"

definition js_parseInt :: "js_string \<Rightarrow> int option" where
  \<comment> \<open>\<open>parseInt(s)\<close> with no radix (ECMAScript, \<open>parseInt ( string, radix )\<close>); \<open>NaN\<close> is \<open>None\<close>\<close>
  "js_parseInt s =
     (let (sign, s2) = parse_sign (dropWhile is_js_ws s);
          (r, s3) = parse_radix s2;
          z = takeWhile (\<lambda>c. digit_val c < r) s3
      in if z = [] then None else Some (sign * int (digits_value r z)))"

fun js_show_nat :: "nat \<Rightarrow> js_string" where
  \<comment> \<open>\<open>String(n)\<close> for a non-negative integer\<close>
  "js_show_nat n = (if n < 10 then [char_of (48 + n)] else js_show_nat (n div 10) @ [char_of (48 + n mod 10)])"

definition js_show_int :: "int \<Rightarrow> js_string" where
  "js_show_int i = (if i < 0 then CHR ''-'' # js_show_nat (nat (- i)) else js_show_nat (nat i))"

definition js_or_num :: "int option \<Rightarrow> int \<Rightarrow> int" where
  \<comment> \<open>\<open>x || d\<close> for a number \<open>x\<close>: \<open>NaN\<close> and \<open>0\<close> are falsy\<close>
  "js_or_num x d = (case x of Some n \<Rightarrow> if n \<noteq> 0 then n else d | None \<Rightarrow> d)"

subsection \<open>Lemmas\<close>

lemma starts_with_iff [js_simps]: "starts_with s p \<longleftrightarrow> take (length p) s = p"
  by (induction s p rule: starts_with.induct) auto

lemma starts_with_append [simp]: "starts_with (p @ r) p"
  by (simp add: starts_with_iff)

lemma starts_with_ex: "starts_with s p \<longleftrightarrow> (\<exists>r. s = p @ r)"
  by (metis append_take_drop_id starts_with_append starts_with_iff)

lemma js_includes_prefix [simp]: "js_includes (t @ b) t"
  by (cases "t @ b") (simp, metis js_includes.simps(2) starts_with_append)

lemma includes_iff [js_simps]: "js_includes s t \<longleftrightarrow> (\<exists>a b. s = a @ t @ b)"
proof (induction s)
  case Nil
  then show ?case by simp
next
  case (Cons x xs)
  show ?case
  proof
    assume "js_includes (x # xs) t"
    then consider "starts_with (x # xs) t" | "js_includes xs t" by auto
    then show "\<exists>a b. x # xs = a @ t @ b"
    proof cases
      case 1
      then obtain r where "x # xs = t @ r" by (auto simp: starts_with_ex)
      then show ?thesis by (metis append_Nil)
    next
      case 2
      with Cons.IH obtain a b where "xs = a @ t @ b" by blast
      then have "x # xs = (x # a) @ t @ b" by simp
      then show ?thesis by blast
    qed
  next
    assume "\<exists>a b. x # xs = a @ t @ b"
    then obtain a b where ab: "x # xs = a @ t @ b" by blast
    show "js_includes (x # xs) t"
    proof (cases a)
      case Nil
      with ab show ?thesis by (auto simp: starts_with_ex)
    next
      case (Cons a' as)
      with ab Cons.IH show ?thesis by auto
    qed
  qed
qed

lemma includes_char [simp]: "js_includes s [c] \<longleftrightarrow> c \<in> set s"
  by (induction s) auto

lemma includes_Cons_mono: "js_includes s t \<Longrightarrow> js_includes (x # s) t"
  by simp

lemma split_char_not_Nil [simp]: "split_char d s \<noteq> []"
  by (induction s) (auto split: list.splits)

lemma hd_split_char [js_simps]: "hd (split_char d s) = takeWhile (\<lambda>c. c \<noteq> d) s"
  by (induction s) (auto split: list.splits)

lemma split_first_char [js_simps]: "split_first [d] s = takeWhile (\<lambda>c. c \<noteq> d) s"
  by (induction s) auto

lemma split_first_prefix: "\<exists>r. s = split_first sep s @ r"
  by (induction s) auto

lemma split_first_no_sep: "\<not> js_includes s sep \<Longrightarrow> split_first sep s = s"
  by (induction s) auto

lemma takeWhile_no_stop [simp]: "d \<notin> set s \<Longrightarrow> takeWhile (\<lambda>c. c \<noteq> d) s = s"
  by (induction s) auto

lemma dropWhile_none: "\<forall>c\<in>set s. \<not> P c \<Longrightarrow> dropWhile P s = s"
  by (induction s) auto

lemma js_trim_no_ws [simp]: "\<forall>c\<in>set s. \<not> is_js_ws c \<Longrightarrow> js_trim s = s"
  by (simp add: js_trim_def dropWhile_none)

lemma strip_trailing_no_c [simp]: "c \<notin> set s \<Longrightarrow> strip_trailing c s = s"
proof -
  assume "c \<notin> set s"
  then have "dropWhile (\<lambda>x. x = c) (rev s) = rev s" by (intro dropWhile_none) auto
  then show ?thesis by (simp add: strip_trailing_def)
qed

lemma strip_prefix_not [simp]: "\<not> starts_with s p \<Longrightarrow> strip_prefix p s = s"
  by (simp add: strip_prefix_def)

lemma set_js_set_list: "set (js_set_list seen xs) = set xs - set seen"
  by (induction seen xs rule: js_set_list.induct) auto

lemma distinct_js_set_list: "distinct (js_set_list seen xs)"
  by (induction seen xs rule: js_set_list.induct) (auto simp: set_js_set_list)

lemma set_js_set [simp]: "set (js_set xs) = set xs"
  by (simp add: js_set_def set_js_set_list)

lemma distinct_js_set [simp]: "distinct (js_set xs)"
  by (simp add: js_set_def distinct_js_set_list)

declare js_show_nat.simps [simp del]

lemma of_char_digit: "(d::nat) < 10 \<Longrightarrow> of_char (char_of (48 + d)) = 48 + d"
  by (simp add: of_char_of)

lemma digit_val_digit: "(d::nat) < 10 \<Longrightarrow> digit_val (char_of (48 + d)) = d"
  by (simp add: digit_val_def Let_def of_char_digit)

lemma digit_char_props:
  assumes "(d::nat) < 10"
  shows "\<not> is_js_ws (char_of (48 + d)) \<and> digit_val (char_of (48 + d)) < 10 \<and>
    char_of (48 + d) \<noteq> CHR ''-'' \<and> char_of (48 + d) \<noteq> CHR ''+'' \<and> char_of (48 + d) \<noteq> CHR ''x'' \<and> char_of (48 + d) \<noteq> CHR ''X''"
proof -
  have o: "of_char (char_of (48 + d)) = 48 + d" using assms by (rule of_char_digit)
  have ne: "of_char c \<noteq> (of_char c' :: nat) \<Longrightarrow> c \<noteq> c'" for c c' by auto
  show ?thesis using assms
    by (intro conjI ne) (simp_all add: o is_js_ws_def digit_val_digit)
qed

lemma js_show_nat_digits: "c \<in> set (js_show_nat n) \<Longrightarrow> \<exists>d::nat. d < 10 \<and> c = char_of (48 + d)"
proof (induction n rule: js_show_nat.induct)
  case (1 n)
  show ?case
  proof (cases "n < 10")
    case True
    with "1.prems" show ?thesis by (auto simp: js_show_nat.simps [of n])
  next
    case False
    with "1.prems" have "c \<in> set (js_show_nat (n div 10)) \<or> c = char_of (48 + n mod 10)"
      by (auto simp: js_show_nat.simps [of n])
    then show ?thesis
    proof
      assume "c \<in> set (js_show_nat (n div 10))"
      with "1.IH" False show ?thesis by blast
    next
      assume "c = char_of (48 + n mod 10)"
      then show ?thesis by (intro exI [of _ "n mod 10"]) simp
    qed
  qed
qed

lemma js_show_nat_not_Nil [simp]: "js_show_nat n \<noteq> []"
  by (simp add: js_show_nat.simps [of n])

lemma digits_value_snoc: "digits_value r (xs @ [c]) = digits_value r xs * r + digit_val c"
  by (simp add: digits_value_def)

lemma digits_value_show: "digits_value 10 (js_show_nat n) = n"
proof (induction n rule: js_show_nat.induct)
  case (1 n)
  show ?case
  proof (cases "n < 10")
    case True
    then show ?thesis by (simp add: js_show_nat.simps [of n] digits_value_def digit_val_digit)
  next
    case False
    with "1.IH" show ?thesis by (simp add: js_show_nat.simps [of n] digits_value_snoc digit_val_digit)
  qed
qed

lemma parse_sign_digit: "s = c # r \<Longrightarrow> c \<noteq> CHR ''-'' \<Longrightarrow> c \<noteq> CHR ''+'' \<Longrightarrow> parse_sign s = (1, s)"
  by (simp add: parse_sign_def)

lemma parse_radix_no_x: "CHR ''x'' \<notin> set s \<Longrightarrow> CHR ''X'' \<notin> set s \<Longrightarrow> parse_radix s = (10, s)"
proof -
  assume "CHR ''x'' \<notin> set s" and "CHR ''X'' \<notin> set s"
  then have "CHR ''x'' \<notin> set (take 2 s)" and "CHR ''X'' \<notin> set (take 2 s)"
    by (meson in_set_takeD)+
  then have "take 2 s \<noteq> ''0x''" and "take 2 s \<noteq> ''0X''" by auto
  then show ?thesis by (simp add: parse_radix_def)
qed

lemma js_show_nat_chars:
  assumes "c \<in> set (js_show_nat n)"
  shows "\<not> is_js_ws c \<and> digit_val c < 10 \<and> c \<noteq> CHR ''-'' \<and> c \<noteq> CHR ''+'' \<and> c \<noteq> CHR ''x'' \<and> c \<noteq> CHR ''X''"
proof -
  from js_show_nat_digits [OF assms] obtain d :: nat where "d < 10" and "c = char_of (48 + d)"
    by (elim exE conjE)
  then show ?thesis by (simp only: digit_char_props simp_thms)
qed

lemma parseInt_show_nat: "js_parseInt (js_show_nat n) = Some (int n)"
proof -
  let ?s = "js_show_nat n"
  have digits: "\<forall>c\<in>set ?s. \<not> is_js_ws c \<and> digit_val c < 10 \<and> c \<noteq> CHR ''-'' \<and> c \<noteq> CHR ''+'' \<and> c \<noteq> CHR ''x'' \<and> c \<noteq> CHR ''X''"
    using js_show_nat_chars by blast
  obtain c r where cr: "?s = c # r" by (cases ?s) auto
  have ws: "dropWhile is_js_ws ?s = ?s"
    using digits cr by (simp add: dropWhile_eq_self_iff)
  have sign: "parse_sign ?s = (1, ?s)"
    using digits cr by (intro parse_sign_digit) auto
  have radix: "parse_radix ?s = (10, ?s)"
    using digits by (intro parse_radix_no_x) auto
  have tw: "takeWhile (\<lambda>c. digit_val c < 10) ?s = ?s"
    using digits by (simp add: takeWhile_eq_all_conv)
  show ?thesis
    by (simp only: js_parseInt_def ws sign radix Let_def split tw digits_value_show js_show_nat_not_Nil if_False) simp
qed

lemmas js_show_eval = js_show_int_def js_show_nat.simps char_of_eq_iff

lemma js_or_num_Some [simp]: "n \<noteq> 0 \<Longrightarrow> js_or_num (Some n) d = n"
  by (simp add: js_or_num_def)

lemma find_Some_mem: "find P xs = Some x \<Longrightarrow> x \<in> set xs \<and> P x"
  by (induction xs) (auto split: if_splits)

lemma find_key_distinct:
  "distinct (map fst xs) \<Longrightarrow> (k, v) \<in> set xs \<Longrightarrow> find (\<lambda>(k', _). k' = k) xs = Some (k, v)"
  by (induction xs) (auto simp: rev_image_eqI)

end
