(* ===== verification/Validator.thy ===== *)
theory Validator
  imports Prelude
begin

text \<open>
  The domain validator of the content script (\<open>src/content.js\<close>: the constant
  \<open>BLACKLIST\<close> and the function \<open>isValidDomain\<close>). It is a pure predicate, and every
  extraction strategy calls it before a candidate is accepted. The anchored regular
  expression of the code,
  \<open>^[a-z0-9]([a-z0-9-]*[a-z0-9])?(\.[a-z0-9]([a-z0-9-]*[a-z0-9])?)*\.[a-z]{2,}$\<close>,
  is written as the check it performs on the dot-separated labels: since no label
  class contains a dot, the only way to match is to cut the string at every dot, so the
  expression holds exactly when there are at least two labels, every label but the
  last is a non-empty run of \<open>[a-z0-9-]\<close> that neither starts nor ends with a
  hyphen, and the last one is at least two letters.
\<close>

definition BLACKLIST :: "js_string list" where
  "BLACKLIST = [
    ''google.com'', ''google.com.br'', ''google.co.uk'', ''google.ca'', ''google.de'',
    ''google.fr'', ''google.es'', ''google.it'', ''google.pt'', ''google.nl'',
    ''gstatic.com'', ''googleapis.com'', ''googleusercontent.com'',
    ''youtube.com'', ''youtu.be'', ''ggpht.com'', ''gvt1.com'', ''gvt2.com'',
    ''webcache.googleusercontent.com'', ''translate.google.com'', ''maps.google.com'',
    ''accounts.google.com'', ''chrome.google.com'', ''play.google.com'', ''support.google.com'',
    ''developers.google.com'', ''cloud.google.com'', ''firebase.google.com'', ''android.com'',
    ''blogger.com'', ''blogspot.com'', ''schema.org'', ''w3.org'', ''example.com'',
    ''localhost'', ''127.0.0.1'', ''wikipedia.org'', ''wikimedia.org'']"

definition blocked_by :: "js_string \<Rightarrow> js_string \<Rightarrow> bool" where
  \<comment> \<open>the test in the loop over \<open>BLACKLIST\<close>\<close>
  "blocked_by domain blocked \<longleftrightarrow> domain = blocked \<or> ends_with domain (''.'' @ blocked)"

fun blacklist_loop :: "js_string \<Rightarrow> js_string list \<Rightarrow> bool" where
  \<comment> \<open>\<open>for (const blocked of BLACKLIST) if (...) return false;\<close> returns whether the loop
      falls through\<close>
  "blacklist_loop domain [] = True"
| "blacklist_loop domain (b # bs) = (if blocked_by domain b then False else blacklist_loop domain bs)"

definition label_inner :: "char \<Rightarrow> bool" where
  \<comment> \<open>\<open>[a-z0-9-]\<close>\<close>
  "label_inner c \<longleftrightarrow> is_az c \<or> is_09 c \<or> c = CHR ''-''"

definition label_edge :: "char \<Rightarrow> bool" where
  \<comment> \<open>\<open>[a-z0-9]\<close>\<close>
  "label_edge c \<longleftrightarrow> is_az c \<or> is_09 c"

definition label_ok :: "js_string \<Rightarrow> bool" where
  \<comment> \<open>\<open>[a-z0-9]([a-z0-9-]*[a-z0-9])?\<close>\<close>
  "label_ok l \<longleftrightarrow> l \<noteq> [] \<and> label_edge (hd l) \<and> label_edge (last l) \<and> list_all label_inner l"

definition tld_ok :: "js_string \<Rightarrow> bool" where
  \<comment> \<open>\<open>[a-z]{2,}\<close>\<close>
  "tld_ok l \<longleftrightarrow> 2 \<le> length l \<and> list_all is_az l"

definition domain_regex :: "js_string \<Rightarrow> bool" where
  \<comment> \<open>\<open>domainRegex.test(domain)\<close>\<close>
  "domain_regex d \<longleftrightarrow>
     (let ls = split_char (CHR ''.'') d in
      2 \<le> length ls \<and> list_all label_ok (butlast ls) \<and> tld_ok (last ls))"

definition isValidDomain :: "js_string \<Rightarrow> bool" where
  "isValidDomain domain =
     (if domain = [] \<or> length domain < 4 \<or> 253 < length domain then False
      else if \<not> blacklist_loop domain BLACKLIST then False
      else if js_includes domain ''google.'' \<or> js_includes domain ''.google'' then False
      else if \<not> domain_regex domain then False
      else if \<not> js_includes domain ''.'' then False
      else let parts = split_char (CHR ''.'') domain; tld = last parts in
        if length tld < 2 then False else True)"

subsection \<open>Structure of accepted domains\<close>

lemma blacklist_loop_iff: "blacklist_loop d bs \<longleftrightarrow> \<not> (\<exists>b\<in>set bs. blocked_by d b)"
  by (induction bs) auto

lemma split_char_no_sep: "w \<in> set (split_char d s) \<Longrightarrow> d \<notin> set w"
proof (induction s arbitrary: w)
  case Nil
  then show ?case by simp
next
  case (Cons c cs)
  then show ?case
    by (cases "split_char d cs") (auto split: if_splits)
qed

lemma length_split_char: "length (split_char d s) = Suc (count_list s d)"
  by (induction s) (auto split: list.splits)

lemma domain_regex_has_dot: "domain_regex d \<Longrightarrow> CHR ''.'' \<in> set d"
proof -
  assume "domain_regex d"
  then have "count_list d (CHR ''.'') \<noteq> 0"
    by (simp add: domain_regex_def Let_def length_split_char)
  then show ?thesis by (simp add: count_list_0_iff)
qed

lemma set_split_char: "c \<in> set s \<Longrightarrow> c \<noteq> d \<Longrightarrow> \<exists>w\<in>set (split_char d s). c \<in> set w"
proof (induction s)
  case Nil
  then show ?case by simp
next
  case (Cons x xs)
  then show ?case
    by (cases "split_char d xs") (auto split: if_splits)
qed

lemma domain_regex_chars:
  assumes "domain_regex d" and "c \<in> set d"
  shows "label_inner c \<or> c = CHR ''.''"
proof (cases "c = CHR ''.''")
  case False
  with assms(2) obtain w where w: "w \<in> set (split_char (CHR ''.'') d)" and c: "c \<in> set w"
    using set_split_char by blast
  let ?ls = "split_char (CHR ''.'') d"
  have ne: "?ls \<noteq> []" by simp
  from w have "w \<in> set (butlast ?ls) \<or> w = last ?ls"
    by (metis append_butlast_last_id ne rotate1.simps(2) set_ConsD set_rotate1)
  with assms(1) c have "label_inner c"
    by (auto simp: domain_regex_def Let_def label_ok_def tld_ok_def list_all_iff label_inner_def)
  then show ?thesis by simp
qed simp

lemma isValidDomain_structure:
  "isValidDomain d \<Longrightarrow> c \<in> set d \<Longrightarrow> label_inner c \<or> c = CHR ''.''"
proof -
  assume v: "isValidDomain d" and c: "c \<in> set d"
  from v have "domain_regex d" by (auto simp: isValidDomain_def split: if_splits)
  with c show ?thesis using domain_regex_chars by blast
qed

subsection \<open>Properties\<close>

text \<open>
  C16. The validator accepts exactly the strings of length 4 to 253 that no blacklist
  entry blocks, that contain neither \<open>google.\<close> nor \<open>.google\<close>, and that match the
  domain expression. In particular the two checks the code performs after the
  expression (a dot is present; the last label has at least two characters) never
  reject anything: they are implied by the expression.
\<close>

theorem isValidDomain_iff:
  "isValidDomain d \<longleftrightarrow>
     4 \<le> length d \<and> length d \<le> 253 \<and> \<not> list_ex (blocked_by d) BLACKLIST \<and>
     \<not> js_includes d ''google.'' \<and> \<not> js_includes d ''.google'' \<and> domain_regex d"
proof -
  have dot: "domain_regex d \<Longrightarrow> js_includes d ''.''"
    using domain_regex_has_dot by simp
  have tld: "domain_regex d \<Longrightarrow> 2 \<le> length (last (split_char (CHR ''.'') d))"
    by (simp add: domain_regex_def Let_def tld_ok_def)
  show ?thesis
    using dot tld by (auto simp: isValidDomain_def blacklist_loop_iff list_ex_iff Let_def)
qed

text \<open>
  On the examples of the specification the validator rejects \<open>google.com\<close>,
  \<open>mail.google.com\<close>, \<open>a.b\<close> and \<open>notadomain\<close> and accepts \<open>example.org\<close> and
  \<open>sub.example.co.uk\<close>.
\<close>

theorem isValidDomain_spec_examples:
  "\<not> isValidDomain ''google.com'' \<and> \<not> isValidDomain ''mail.google.com'' \<and>
   \<not> isValidDomain ''a.b'' \<and> \<not> isValidDomain ''notadomain'' \<and>
   isValidDomain ''example.org'' \<and> isValidDomain ''sub.example.co.uk''"
  by code_simp

text \<open>
  The Google filter is a plain substring test: a domain that is not Google's and
  passes the blacklist and the domain expression, but has a label starting with
  \<open>google\<close> after a dot (\<open>shop.googlefans.net\<close>), is rejected.
\<close>

theorem isValidDomain_rejects_google_prefixed_label:
  "domain_regex ''shop.googlefans.net'' \<and> \<not> list_ex (blocked_by ''shop.googlefans.net'') BLACKLIST \<and>
   \<not> isValidDomain ''shop.googlefans.net''"
  by code_simp

end
