(* ===== verification/Normalizer.thy ===== *)
theory Normalizer
  imports Validator
begin

text \<open>
  The two normalisers of the content script (\<open>src/content.js\<close>, \<open>normalizeDomain\<close>
  and \<open>normalizeUrl\<close>), which compute the key under which the storage merge of
  \<open>saveDomains\<close> deduplicates items. \<open>normalizeDomain\<close> is string surgery and is
  modelled step by step. \<open>normalizeUrl\<close> calls the browser's \<open>URL\<close> parser and the
  serialiser of \<open>URLSearchParams\<close>: these are library code, so the model takes them as
  parameters, an \<open>url_parser\<close> (\<open>None\<close> where \<open>new URL\<close> throws) returning the
  fields the code reads, and the form-urlencoder \<open>enc\<close> that \<open>toString\<close> applies to each
  name and value. Every lemma about \<open>normalizeUrl\<close> holds for every parser and encoder.
\<close>

subsection \<open>normalizeDomain\<close>

definition strip_scheme :: "js_string \<Rightarrow> js_string" where
  \<comment> \<open>\<open>s.replace(/^https?:\/\//, '')\<close>: the greedy \<open>s?\<close> tries \<open>https://\<close> first\<close>
  "strip_scheme s =
     (if starts_with s ''https://'' then drop 8 s
      else if starts_with s ''http://'' then drop 7 s else s)"

definition normalizeDomain :: "js_string \<Rightarrow> js_string option" where
  "normalizeDomain domain =
     (if domain = [] then None
      else
        let n0 = js_trim (js_lower domain);
            n1 = strip_scheme n0;
            n2 = strip_prefix ''www.'' n1;
            n3 = strip_trailing (CHR ''/'') n2;
            n4 = hd (split_char (CHR '':'') n3);
            n5 = hd (split_char (CHR ''/'') n4)
        in Some n5)"

subsection \<open>normalizeUrl\<close>

record url_obj =
  url_protocol :: js_string
  url_hostname :: js_string
  url_port :: js_string
  url_pathname :: js_string
  url_params :: "(js_string \<times> js_string) list"

type_synonym url_parser = "js_string \<Rightarrow> url_obj option"
type_synonym form_encoder = "js_string \<Rightarrow> js_string"

record platform =
  pf_parse :: url_parser                         \<comment> \<open>\<open>new URL(s)\<close>, \<open>None\<close> where it throws\<close>
  pf_decode :: "js_string \<Rightarrow> js_string option"  \<comment> \<open>\<open>decodeURIComponent\<close>, \<open>None\<close> where it throws\<close>
  pf_enc :: form_encoder                         \<comment> \<open>the encoder of \<open>URLSearchParams.toString\<close>\<close>

definition url_origin :: "url_obj \<Rightarrow> js_string" where
  \<comment> \<open>\<open>urlObj.origin\<close> of a hierarchical URL: scheme, host and a non-default port\<close>
  "url_origin u = url_protocol u @ ''//'' @ url_hostname u @
     (if url_port u = [] then [] else '':'' @ url_port u)"

definition skipParams :: "js_string list" where
  "skipParams = [''utm_source'', ''utm_medium'', ''utm_campaign'', ''utm_term'', ''utm_content'',
                 ''fbclid'', ''gclid'', ''ref'', ''source'', ''mc_cid'', ''mc_eid'']"

definition keep_param :: "js_string \<times> js_string \<Rightarrow> bool" where
  \<comment> \<open>\<open>!skipParams.includes(key.toLowerCase())\<close>\<close>
  "keep_param kv \<longleftrightarrow> js_lower (fst kv) \<notin> set skipParams"

definition params_toString :: "form_encoder \<Rightarrow> (js_string \<times> js_string) list \<Rightarrow> js_string" where
  \<comment> \<open>\<open>URLSearchParams.prototype.toString\<close>\<close>
  "params_toString enc ps = js_join ''&'' (map (\<lambda>(k, v). enc k @ ''='' @ enc v) ps)"

definition url_key :: "form_encoder \<Rightarrow> url_obj \<Rightarrow> js_string" where
  \<comment> \<open>the body of the \<open>try\<close> block after the parse\<close>
  "url_key enc u =
     (let host = strip_prefix ''www.'' (js_lower (url_hostname u));
          p = strip_trailing (CHR ''/'') (url_pathname u);
          path = (if p = [] then ''/'' else p);
          queryString = params_toString enc (filter keep_param (url_params u))
      in ''https://'' @ host @ path @ (if queryString = [] then [] else ''?'' @ queryString))"

definition normalizeUrl :: "url_parser \<Rightarrow> form_encoder \<Rightarrow> js_string \<Rightarrow> js_string option" where
  "normalizeUrl parse enc url =
     (if url = [] then None
      else case parse (if starts_with url ''http'' then url else ''https://'' @ url) of
        None \<Rightarrow> Some url
      | Some u \<Rightarrow> Some (url_key enc u))"

subsection \<open>Lemmas on the string steps\<close>

lemma is_upper_lower_char [simp]: "\<not> is_upper (js_lower_char c)"
proof (cases "is_upper c")
  case True
  then have "of_char c + (32::nat) < 256" by (simp add: is_upper_def Let_def)
  then have "of_char (char_of (of_char c + (32::nat)) :: char) = (of_char c + 32 :: nat)"
    by (simp add: of_char_of)
  with True show ?thesis by (simp add: js_lower_char_def is_upper_def Let_def)
qed (simp add: js_lower_char_def)

lemma js_lower_char_id [simp]: "\<not> is_upper c \<Longrightarrow> js_lower_char c = c"
  by (simp add: js_lower_char_def)

lemma js_lower_id: "\<forall>c\<in>set s. \<not> is_upper c \<Longrightarrow> js_lower s = s"
  by (induction s) (auto simp: js_lower_def)

lemma js_lower_append [simp]: "js_lower (s @ t) = js_lower s @ js_lower t"
  by (simp add: js_lower_def)

lemma label_inner_not_upper: "label_inner c \<Longrightarrow> \<not> is_upper c"
  by (auto simp: label_inner_def is_az_def is_09_def is_upper_def Let_def)

lemma label_inner_not_ws: "label_inner c \<Longrightarrow> \<not> is_js_ws c"
  by (auto simp: label_inner_def is_az_def is_09_def is_js_ws_def Let_def)

lemma strip_trailing_snoc [simp]: "strip_trailing c (s @ [c]) = strip_trailing c s"
  by (simp add: strip_trailing_def)

lemma set_strip_trailing: "set (strip_trailing c s) \<subseteq> set s"
  by (auto simp: strip_trailing_def dest: set_dropWhileD)

lemma set_strip_prefix: "set (strip_prefix p s) \<subseteq> set s"
  by (auto simp: strip_prefix_def dest: in_set_dropD)

lemma set_strip_scheme: "set (strip_scheme s) \<subseteq> set s"
  by (auto simp: strip_scheme_def dest: in_set_dropD)

lemma set_js_trim: "set (js_trim s) \<subseteq> set s"
  by (auto simp: js_trim_def dest!: set_dropWhileD)

lemma strip_scheme_no_colon: "CHR '':'' \<notin> set s \<Longrightarrow> strip_scheme s = s"
  by (auto simp: strip_scheme_def starts_with_ex)

lemmas normalize_steps_set = set_strip_trailing set_strip_prefix set_strip_scheme set_js_trim

text \<open>Everything \<open>normalizeDomain\<close> returns is built from the lowered input.\<close>

lemma normalizeDomain_set:
  assumes "normalizeDomain x = Some k"
  shows "set k \<subseteq> set (js_lower x)"
proof -
  let ?n0 = "js_trim (js_lower x)"
  let ?n3 = "strip_trailing (CHR ''/'') (strip_prefix ''www.'' (strip_scheme ?n0))"
  have k: "k = takeWhile (\<lambda>c. c \<noteq> CHR ''/'') (takeWhile (\<lambda>c. c \<noteq> CHR '':'') ?n3)"
    using assms by (auto simp: normalizeDomain_def Let_def hd_split_char split: if_splits)
  have "set ?n3 \<subseteq> set (js_lower x)"
    using normalize_steps_set by (meson order_trans)
  with k show ?thesis
    by (auto dest!: set_takeWhileD)
qed

lemma normalizeDomain_no_sep:
  assumes "normalizeDomain x = Some k"
  shows "CHR ''/'' \<notin> set k" and "CHR '':'' \<notin> set k"
proof -
  let ?n3 = "strip_trailing (CHR ''/'') (strip_prefix ''www.'' (strip_scheme (js_trim (js_lower x))))"
  have k: "k = takeWhile (\<lambda>c. c \<noteq> CHR ''/'') (takeWhile (\<lambda>c. c \<noteq> CHR '':'') ?n3)"
    using assms by (auto simp: normalizeDomain_def Let_def hd_split_char split: if_splits)
  then show "CHR ''/'' \<notin> set k" by (auto dest: set_takeWhileD)
  from k show "CHR '':'' \<notin> set k" by (auto dest!: set_takeWhileD)
qed


lemma js_lower_not_upper: "c \<in> set (js_lower x) \<Longrightarrow> \<not> is_upper c"
  by (auto simp: js_lower_def)

lemma valid_domain_plain:
  "isValidDomain d \<Longrightarrow> \<forall>c\<in>set d. \<not> is_upper c \<and> \<not> is_js_ws c \<and> c \<noteq> CHR '':'' \<and> c \<noteq> CHR ''/''"
proof
  fix c assume v: "isValidDomain d" and c: "c \<in> set d"
  from v c have "label_inner c \<or> c = CHR ''.''" by (rule isValidDomain_structure)
  then show "\<not> is_upper c \<and> \<not> is_js_ws c \<and> c \<noteq> CHR '':'' \<and> c \<noteq> CHR ''/''"
    by (auto simp: label_inner_def is_az_def is_09_def is_upper_def is_js_ws_def Let_def)
qed

lemma normalizeDomain_steps:
  "x \<noteq> [] \<Longrightarrow> normalizeDomain x =
     Some (takeWhile (\<lambda>c. c \<noteq> CHR ''/'') (takeWhile (\<lambda>c. c \<noteq> CHR '':'')
       (strip_trailing (CHR ''/'') (strip_prefix ''www.'' (strip_scheme (js_trim (js_lower x)))))))"
  by (simp add: normalizeDomain_def hd_split_char)

lemma normalizeDomain_fixpoint:
  assumes "k \<noteq> []" and "\<forall>c\<in>set k. \<not> is_upper c \<and> \<not> is_js_ws c \<and> c \<noteq> CHR '':'' \<and> c \<noteq> CHR ''/''"
    and "\<not> starts_with k ''www.''"
  shows "normalizeDomain k = Some k"
proof -
  from assms(2) have "js_lower k = k" by (simp add: js_lower_id)
  moreover from assms(2) have "js_trim k = k" by simp
  moreover from assms(2) have "CHR '':'' \<notin> set k" by auto
  then have "strip_scheme k = k" by (rule strip_scheme_no_colon)
  moreover from assms(3) have "strip_prefix ''www.'' k = k" by simp
  moreover from assms(2) have slash: "CHR ''/'' \<notin> set k" by auto
  then have "strip_trailing (CHR ''/'') k = k" by simp
  moreover from assms(2) have colon: "CHR '':'' \<notin> set k" by auto
  ultimately show ?thesis
    using normalizeDomain_steps [OF assms(1)] slash by (simp only: takeWhile_no_stop [OF colon]) simp
qed

subsection \<open>Properties\<close>

text \<open>
  C29. For a valid domain that does not itself start with \<open>www.\<close>, the domain and
  its decorated form \<open>https://www.\<close> domain \<open>/\<close> normalise to the same key, the
  domain itself.
\<close>

theorem normalizeDomain_decorated:
  assumes "isValidDomain d" and "\<not> starts_with d ''www.''"
  shows "normalizeDomain d = Some d \<and> normalizeDomain (''https://www.'' @ d @ ''/'') = Some d"
proof
  have plain: "\<forall>c\<in>set d. \<not> is_upper c \<and> \<not> is_js_ws c \<and> c \<noteq> CHR '':'' \<and> c \<noteq> CHR ''/''"
    using assms(1) by (rule valid_domain_plain)
  have ne: "d \<noteq> []" using assms(1) by (auto simp: isValidDomain_def)
  show "normalizeDomain d = Some d"
    using ne plain assms(2) by (rule normalizeDomain_fixpoint)
  let ?x = "''https://www.'' @ d @ ''/''"
  have lit: "\<forall>c\<in>set (''https://www.'' @ ''/''). \<not> is_upper c \<and> \<not> is_js_ws c"
    by (simp add: is_upper_def is_js_ws_def Let_def)
  with plain have "js_lower ?x = ?x" by (intro js_lower_id) auto
  moreover from plain lit have "js_trim ?x = ?x" by (intro js_trim_no_ws) auto
  moreover have "strip_scheme ?x = ''www.'' @ d @ ''/''" by (simp add: strip_scheme_def)
  moreover have "strip_prefix ''www.'' (''www.'' @ d @ ''/'') = d @ ''/''" by (simp add: strip_prefix_def)
  moreover from plain have slash: "CHR ''/'' \<notin> set d" by auto
  then have "strip_trailing (CHR ''/'') (d @ ''/'') = d" by simp
  moreover from plain have colon: "CHR '':'' \<notin> set d" by auto
  moreover have "normalizeDomain ?x =
     Some (takeWhile (\<lambda>c. c \<noteq> CHR ''/'') (takeWhile (\<lambda>c. c \<noteq> CHR '':'')
       (strip_trailing (CHR ''/'') (strip_prefix ''www.'' (strip_scheme (js_trim (js_lower ?x)))))))"
    by (rule normalizeDomain_steps) simp
  ultimately show "normalizeDomain ?x = Some d"
    using slash by (simp only: takeWhile_no_stop [OF colon]) simp
qed

text \<open>
  Without the side condition the specification's normalisation property fails: the
  valid domain \<open>www.example.org\<close> normalises to \<open>example.org\<close>, but its decorated
  form only loses one \<open>www.\<close> and normalises to \<open>www.example.org\<close>.
\<close>

theorem normalizeDomain_www_counterexample:
  "isValidDomain ''www.example.org'' \<and>
   normalizeDomain ''www.example.org'' = Some ''example.org'' \<and>
   normalizeDomain (''https://www.'' @ ''www.example.org'' @ ''/'') = Some ''www.example.org''"
  by code_simp

text \<open>
  C28. \<open>normalizeDomain\<close> is idempotent on every key it returns that is non-empty, has no
  whitespace and does not start with \<open>www.\<close>.
\<close>

theorem normalizeDomain_idem:
  assumes "normalizeDomain x = Some k" and "k \<noteq> []" and "\<forall>c\<in>set k. \<not> is_js_ws c"
    and "\<not> starts_with k ''www.''"
  shows "normalizeDomain k = Some k"
proof (rule normalizeDomain_fixpoint [OF assms(2) _ assms(4)])
  have "set k \<subseteq> set (js_lower x)" using assms(1) by (rule normalizeDomain_set)
  with assms(3) normalizeDomain_no_sep [OF assms(1)]
  show "\<forall>c\<in>set k. \<not> is_upper c \<and> \<not> is_js_ws c \<and> c \<noteq> CHR '':'' \<and> c \<noteq> CHR ''/''"
    by (auto dest: js_lower_not_upper)
qed

text \<open>
  In general \<open>normalizeDomain\<close> is not idempotent: a doubled \<open>www.\<close> loses one
  copy per call, and whitespace before a port survives the first call and is trimmed by
  the second.
\<close>

theorem normalizeDomain_not_idempotent:
  "normalizeDomain ''www.www.example.org'' = Some ''www.example.org'' \<and>
   normalizeDomain ''www.example.org'' = Some ''example.org'' \<and>
   normalizeDomain ''Example.org :8080'' = Some ''example.org '' \<and>
   normalizeDomain ''example.org '' = Some ''example.org''"
  by code_simp

text \<open>
  C30. Exactly the tracking parameters are ignored: a query parameter named \<open>k\<close> never
  affects the key \<open>normalizeUrl\<close> computes from a parsed URL, for every URL, value, position
  and encoder, exactly when \<open>k\<close> lower-cased is one of the eleven tracking names of the
  skip list; any other parameter changes the key of some URL.
\<close>

theorem url_key_drops_tracking:
  "(\<forall>enc u xs ys v. url_key enc (u\<lparr>url_params := xs @ (k, v) # ys\<rparr>) = url_key enc (u\<lparr>url_params := xs @ ys\<rparr>)) \<longleftrightarrow>
   js_lower k \<in> {''utm_source'', ''utm_medium'', ''utm_campaign'', ''utm_term'', ''utm_content'',
                  ''fbclid'', ''gclid'', ''ref'', ''source'', ''mc_cid'', ''mc_eid''}"
proof
  assume drop: "\<forall>enc u xs ys v. url_key enc (u\<lparr>url_params := xs @ (k, v) # ys\<rparr>) = url_key enc (u\<lparr>url_params := xs @ ys\<rparr>)"
  show "js_lower k \<in> {''utm_source'', ''utm_medium'', ''utm_campaign'', ''utm_term'', ''utm_content'',
                       ''fbclid'', ''gclid'', ''ref'', ''source'', ''mc_cid'', ''mc_eid''}"
  proof (rule ccontr)
    let ?u = "\<lparr>url_protocol = [], url_hostname = [], url_port = [], url_pathname = [], url_params = []\<rparr>"
    assume "js_lower k \<notin> {''utm_source'', ''utm_medium'', ''utm_campaign'', ''utm_term'', ''utm_content'',
                            ''fbclid'', ''gclid'', ''ref'', ''source'', ''mc_cid'', ''mc_eid''}"
    then have "keep_param (k, [])" by (simp add: keep_param_def skipParams_def)
    then have "length (url_key (\<lambda>x. x) (?u\<lparr>url_params := [] @ (k, []) # []\<rparr>)) =
               length (url_key (\<lambda>x. x) (?u\<lparr>url_params := [] @ []\<rparr>)) + Suc (Suc (length k))"
      by (simp add: url_key_def params_toString_def Let_def)
    moreover have "url_key (\<lambda>x. x) (?u\<lparr>url_params := [] @ (k, []) # []\<rparr>) = url_key (\<lambda>x. x) (?u\<lparr>url_params := [] @ []\<rparr>)"
      using drop by blast
    ultimately show False by simp
  qed
next
  assume "js_lower k \<in> {''utm_source'', ''utm_medium'', ''utm_campaign'', ''utm_term'', ''utm_content'',
                         ''fbclid'', ''gclid'', ''ref'', ''source'', ''mc_cid'', ''mc_eid''}"
  then have "\<not> keep_param (k, v)" for v by (simp add: keep_param_def skipParams_def)
  then show "\<forall>enc u xs ys v. url_key enc (u\<lparr>url_params := xs @ (k, v) # ys\<rparr>) = url_key enc (u\<lparr>url_params := xs @ ys\<rparr>)"
    by (simp add: url_key_def)
qed

end
