(* ===== verification/Extractor.thy ===== *)
theory Extractor
  imports Normalizer
begin

text \<open>
  The extraction engine of the content script (\<open>src/content.js\<close>: \<open>extractFromUrl\<close>,
  \<open>extractDomainFromText\<close> and \<open>extractDomains\<close>). The page is a snapshot of what the
  thirteen selector queries of \<open>extractDomains\<close> return, in document order: the
  \<open>href\<close>s of the matched links (with, for strategy 6, whether the link lies inside a
  carousel) and the \<open>textContent\<close>s of the matched text elements. The strategies are an
  ordered list of \<open>strategy\<close> values, each run over its part of the snapshot, all
  feeding one per-pass record of seen items; the pass result is then filtered against the
  session set \<open>extractedDomains\<close>.
\<close>

subsection \<open>extractFromUrl\<close>

fun match_url_param :: "js_string \<Rightarrow> js_string option" where
  \<comment> \<open>\<open>url.match(/[?&]url=([^&]+)/)[1]\<close>: the leftmost match\<close>
  "match_url_param [] = None"
| "match_url_param (c # cs) =
     (let v = takeWhile (\<lambda>x. x \<noteq> CHR ''&'') (drop 4 cs) in
      if (c = CHR ''?'' \<or> c = CHR ''&'') \<and> starts_with cs ''url='' \<and> v \<noteq> [] then Some v
      else match_url_param cs)"

definition extractFromUrl :: "platform \<Rightarrow> js_string \<Rightarrow> (js_string \<times> js_string) option" where
  \<comment> \<open>\<open>Some (url, domain)\<close>, or \<open>None\<close> for \<open>return null\<close> and for every exception the
      \<open>catch\<close> swallows\<close>
  "extractFromUrl pf url =
     (if url = [] then None
      else
        let url' = (if js_includes url ''google.com/url?'' then
                      (case match_url_param url of None \<Rightarrow> Some url | Some m \<Rightarrow> pf_decode pf m)
                    else Some url)
        in case url' of
             None \<Rightarrow> None
           | Some u0 \<Rightarrow>
               (case pf_parse pf u0 of
                  None \<Rightarrow> None
                | Some u \<Rightarrow>
                    let domain = strip_prefix ''www.'' (js_lower (url_hostname u))
                    in if isValidDomain domain then Some (url_origin u @ url_pathname u, domain) else None))"

subsection \<open>extractDomainFromText\<close>

fun replace_scheme_all :: "js_string \<Rightarrow> js_string" where
  \<comment> \<open>\<open>text.replace(/https?:\/\//g, ' ')\<close>\<close>
  "replace_scheme_all [] = []"
| "replace_scheme_all (c # cs) =
     (if starts_with (c # cs) ''https://'' then CHR '' '' # replace_scheme_all (drop 7 cs)
      else if starts_with (c # cs) ''http://'' then CHR '' '' # replace_scheme_all (drop 6 cs)
      else c # replace_scheme_all cs)"

fun replace_http_all :: "js_string \<Rightarrow> js_string" where
  \<comment> \<open>\<open>text.replace(/https?/g, ' ')\<close>\<close>
  "replace_http_all [] = []"
| "replace_http_all (c # cs) =
     (if starts_with (c # cs) ''https'' then CHR '' '' # replace_http_all (drop 4 cs)
      else if starts_with (c # cs) ''http'' then CHR '' '' # replace_http_all (drop 3 cs)
      else c # replace_http_all cs)"

definition rsaquo :: js_string where
  \<comment> \<open>the separator \<open>\<rsaquo>\<close> (U+203A), as its UTF-8 bytes\<close>
  "rsaquo = map char_of [226::nat, 128, 186]"

definition extractDomainFromText :: "js_string \<Rightarrow> js_string option" where
  "extractDomainFromText text =
     (if text = [] then None
      else
        let t1 = js_lower (js_trim text);
            t2 = replace_scheme_all t1;
            t3 = replace_http_all t2;
            t4 = takeWhile (\<lambda>c. \<not> is_js_ws c) (js_trim t3);
            t5 = strip_prefix ''www.'' t4;
            d1 = split_first ''/'' t5;
            d2 = split_first '' '' d1;
            d3 = split_first ('' '' @ rsaquo @ '' '') d2;
            d4 = js_trim (split_first ''>'' d3);
            d5 = js_trim (split_first rsaquo d4);
            d6 = js_trim (split_first ''...'' d5);
            d7 = split_first '':'' d6
        in if isValidDomain d7 then Some d7 else None)"

subsection \<open>The strategies\<close>

record snapshot =
  links_http :: "js_string list"             \<comment> \<open>1: \<open>a[href^="http"]\<close>\<close>
  links_results :: "js_string list"          \<comment> \<open>2: \<open>#search, #rso, #botstuff\<close> links\<close>
  links_ved :: "js_string list"              \<comment> \<open>3: \<open>a[data-ved]\<close>\<close>
  links_attrid :: "js_string list"           \<comment> \<open>4: \<open>div[data-attrid] a\<close>\<close>
  links_paa :: "js_string list"              \<comment> \<open>5: \<open>.related-question-pair a\<close>\<close>
  links_main :: "(js_string \<times> bool) list"   \<comment> \<open>6: \<open>#center_col, #main\<close> links, inside a carousel\<close>
  links_containers :: "js_string list"       \<comment> \<open>7: \<open>[data-sokoban-container], [data-hveid]\<close> links\<close>
  links_organic :: "js_string list"          \<comment> \<open>8: \<open>.g, .MjjYud, .hlcw0c\<close> links\<close>
  links_social :: "js_string list"           \<comment> \<open>9: \<open>[data-init-vis="true"], .kCrYT\<close> links\<close>
  cite_texts :: "js_string list"             \<comment> \<open>10: \<open>cite\<close>\<close>
  breadcrumb_texts :: "js_string list"       \<comment> \<open>11: breadcrumb classes\<close>
  span_texts :: "js_string list"             \<comment> \<open>12: \<open>span[dir="ltr"]\<close>\<close>
  urlclass_texts :: "js_string list"         \<comment> \<open>13: \<open>[class*="url"]\<close> and kin\<close>

record pass =
  seenDomains :: "js_string list"
  newDomains :: "js_string list"

definition pass_init :: pass where
  "pass_init = \<lparr>seenDomains = [], newDomains = []\<rparr>"

definition addItem :: "bool \<Rightarrow> js_string \<Rightarrow> js_string \<Rightarrow> pass \<Rightarrow> pass" where
  "addItem full url domain p =
     (let item = (if full then url else domain) in
      if item \<noteq> [] \<and> item \<notin> set (seenDomains p)
      then p\<lparr>seenDomains := item # seenDomains p, newDomains := newDomains p @ [item]\<rparr>
      else p)"

definition link_item :: "platform \<Rightarrow> bool \<Rightarrow> js_string \<Rightarrow> pass \<Rightarrow> pass" where
  \<comment> \<open>\<open>const result = extractFromUrl(link.href); if (result) addItem(...)\<close>\<close>
  "link_item pf full href p =
     (case extractFromUrl pf href of None \<Rightarrow> p | Some (u, d) \<Rightarrow> addItem full u d p)"

definition text_item :: "bool \<Rightarrow> js_string \<Rightarrow> pass \<Rightarrow> pass" where
  \<comment> \<open>the text branch shared by strategies 10 to 13\<close>
  "text_item full text p =
     (case extractDomainFromText text of
        None \<Rightarrow> p
      | Some domain \<Rightarrow>
          if (if full then ''https://'' @ domain else domain) \<notin> set (seenDomains p) then
            (if full then addItem full (''https://'' @ domain) domain p
             else p\<lparr>seenDomains := domain # seenDomains p, newDomains := newDomains p @ [domain]\<rparr>)
          else p)"

fun match_http_url :: "js_string \<Rightarrow> js_string option" where
  \<comment> \<open>\<open>text.match(/https?:\/\/[^\s]+/)[0]\<close>: the leftmost match, greedy\<close>
  "match_http_url [] = None"
| "match_http_url (c # cs) =
     (let tail8 = takeWhile (\<lambda>x. \<not> is_js_ws x) (drop 7 cs);
          tail7 = takeWhile (\<lambda>x. \<not> is_js_ws x) (drop 6 cs) in
      if starts_with (c # cs) ''https://'' \<and> tail8 \<noteq> [] then Some (''https://'' @ tail8)
      else if starts_with (c # cs) ''http://'' \<and> tail7 \<noteq> [] then Some (''http://'' @ tail7)
      else match_http_url cs)"

definition cite_item :: "platform \<Rightarrow> bool \<Rightarrow> js_string \<Rightarrow> pass \<Rightarrow> pass" where
  \<comment> \<open>strategy 10: in full-URL mode an absolute URL in the text wins, and ends the element\<close>
  "cite_item pf full text p =
     (if full then
        (case match_http_url text of
           Some m \<Rightarrow> link_item pf full m p
         | None \<Rightarrow> text_item full text p)
      else text_item full text p)"

definition internal_link :: "js_string \<Rightarrow> bool" where
  \<comment> \<open>the exclusions of strategy 1\<close>
  "internal_link href \<longleftrightarrow>
     js_includes href ''google.com/search'' \<or> js_includes href ''google.com/url'' \<or>
     js_includes href ''google.com/preferences'' \<or> js_includes href ''google.com/advanced_search'' \<or>
     js_includes href ''accounts.google.com'' \<or> js_includes href ''support.google.com'' \<or>
     js_includes href ''policies.google.com''"

datatype strategy =
    AllLinks | ResultLinks | VedLinks | AttridLinks | PaaLinks | MainLinks | ContainerLinks
  | OrganicLinks | SocialLinks | CiteTexts | BreadcrumbTexts | SpanTexts | UrlClassTexts

definition strategies :: "strategy list" where
  "strategies = [AllLinks, ResultLinks, VedLinks, AttridLinks, PaaLinks, MainLinks, ContainerLinks,
                 OrganicLinks, SocialLinks, CiteTexts, BreadcrumbTexts, SpanTexts, UrlClassTexts]"

fun run_strategy :: "platform \<Rightarrow> bool \<Rightarrow> snapshot \<Rightarrow> strategy \<Rightarrow> pass \<Rightarrow> pass" where
  "run_strategy pf full sn AllLinks p =
     fold (\<lambda>h p. if internal_link h then p else link_item pf full h p) (links_http sn) p"
| "run_strategy pf full sn ResultLinks p = fold (link_item pf full) (links_results sn) p"
| "run_strategy pf full sn VedLinks p =
     fold (\<lambda>h p. if \<not> js_includes h ''google.com/search'' \<and> \<not> js_includes h ''google.com/url''
                 then link_item pf full h p else p) (links_ved sn) p"
| "run_strategy pf full sn AttridLinks p = fold (link_item pf full) (links_attrid sn) p"
| "run_strategy pf full sn PaaLinks p = fold (link_item pf full) (links_paa sn) p"
| "run_strategy pf full sn MainLinks p =
     fold (\<lambda>(h, carousel) p. if \<not> carousel \<and> \<not> js_includes h ''google.'' then link_item pf full h p else p)
       (links_main sn) p"
| "run_strategy pf full sn ContainerLinks p = fold (link_item pf full) (links_containers sn) p"
| "run_strategy pf full sn OrganicLinks p =
     fold (\<lambda>h p. if \<not> js_includes h ''google.'' then link_item pf full h p else p) (links_organic sn) p"
| "run_strategy pf full sn SocialLinks p = fold (link_item pf full) (links_social sn) p"
| "run_strategy pf full sn CiteTexts p = fold (cite_item pf full) (cite_texts sn) p"
| "run_strategy pf full sn BreadcrumbTexts p = fold (text_item full) (breadcrumb_texts sn) p"
| "run_strategy pf full sn SpanTexts p =
     fold (\<lambda>t p. if js_includes t ''.'' \<and> \<not> js_includes t '' '' then text_item full t p else p)
       (span_texts sn) p"
| "run_strategy pf full sn UrlClassTexts p =
     fold (\<lambda>t p. if js_includes t ''.'' \<and> length t < 100 then text_item full t p else p)
       (urlclass_texts sn) p"

definition run_strategies :: "platform \<Rightarrow> bool \<Rightarrow> snapshot \<Rightarrow> pass" where
  "run_strategies pf full sn = fold (run_strategy pf full sn) strategies pass_init"

subsection \<open>extractDomains\<close>

record content_state =
  isAutoExtractEnabled :: bool
  collectFullUrl :: bool
  extractedDomains :: "js_string list"
  lastExtractTime :: int

record page =
  loc_href :: js_string
  loc_pathname :: js_string
  page_snapshot :: snapshot

datatype content_effect =
    SaveDomains "js_string list"
  | SendToVPSMsg "js_string list"
  | DomainsExtracted nat "js_string list"
  | ShowFeedback nat

definition EXTRACT_INTERVAL :: int where "EXTRACT_INTERVAL = 500"

definition isGoogleSearchPage :: "page \<Rightarrow> bool" where
  "isGoogleSearchPage pg \<longleftrightarrow> js_includes (loc_href pg) ''/search'' \<or> loc_pathname pg = ''/search''"

fun filter_new :: "js_string list \<Rightarrow> js_string list \<Rightarrow> js_string list \<times> js_string list" where
  \<comment> \<open>\<open>newDomains.filter(d => { if (!extractedDomains.has(d)) { extractedDomains.add(d); ... } })\<close>\<close>
  "filter_new E [] = (E, [])"
| "filter_new E (d # ds) =
     (if d \<notin> set E then (let (E', r) = filter_new (E @ [d]) ds in (E', d # r))
      else filter_new E ds)"

definition extractDomains ::
  "platform \<Rightarrow> int \<Rightarrow> page \<Rightarrow> content_state \<Rightarrow> content_state \<times> js_string list \<times> content_effect list" where
  "extractDomains pf now pg s =
     (if \<not> isAutoExtractEnabled s then (s, [], [])
      else if now - lastExtractTime s < EXTRACT_INTERVAL then (s, [], [])
      else
        let s1 = s\<lparr>lastExtractTime := now\<rparr> in
        if \<not> isGoogleSearchPage pg then (s1, [], [])
        else
          let p = run_strategies pf (collectFullUrl s1) (page_snapshot pg);
              (E', uniq) = filter_new (extractedDomains s1) (newDomains p);
              s2 = s1\<lparr>extractedDomains := E'\<rparr>
          in if uniq \<noteq> [] then
               (s2, uniq, [SaveDomains uniq, SendToVPSMsg uniq, DomainsExtracted (length uniq) uniq,
                           ShowFeedback (length uniq)])
             else (s2, [], []))"


subsection \<open>The pass invariant\<close>

definition pass_ok :: "bool \<Rightarrow> pass \<Rightarrow> bool" where
  \<comment> \<open>seen and new items agree, new items are distinct, and in domain mode every one is valid\<close>
  "pass_ok full p \<longleftrightarrow>
     set (newDomains p) = set (seenDomains p) \<and> distinct (newDomains p) \<and>
     (\<not> full \<longrightarrow> list_all isValidDomain (newDomains p))"

lemma extractFromUrl_valid: "extractFromUrl pf url = Some (u, d) \<Longrightarrow> isValidDomain d"
  by (auto simp: extractFromUrl_def Let_def split: if_splits option.splits)

lemma extractDomainFromText_valid: "extractDomainFromText t = Some d \<Longrightarrow> isValidDomain d"
  by (auto simp: extractDomainFromText_def Let_def split: if_splits)

lemma pass_ok_init: "pass_ok full pass_init"
  by (simp add: pass_ok_def pass_init_def)

lemma addItem_ok: "pass_ok full p \<Longrightarrow> (\<not> full \<Longrightarrow> isValidDomain d) \<Longrightarrow> pass_ok full (addItem full u d p)"
  by (auto simp: pass_ok_def addItem_def Let_def)

lemma link_item_ok: "pass_ok full p \<Longrightarrow> pass_ok full (link_item pf full h p)"
  by (auto simp: link_item_def intro: addItem_ok dest: extractFromUrl_valid split: option.splits)

lemma text_item_ok: "pass_ok full p \<Longrightarrow> pass_ok full (text_item full t p)"
proof (cases "extractDomainFromText t")
  case (Some d)
  assume ok: "pass_ok full p"
  from Some have v: "isValidDomain d" by (rule extractDomainFromText_valid)
  show ?thesis
  proof (cases full)
    case True
    from ok True have "pass_ok True p" by simp
    then have "pass_ok True (addItem True (''https://'' @ d) d p)" by (rule addItem_ok) simp
    with Some True \<open>pass_ok True p\<close> show ?thesis by (simp add: text_item_def)
  next
    case False
    with Some ok v show ?thesis by (auto simp: text_item_def pass_ok_def)
  qed
qed (simp add: text_item_def)

lemma cite_item_ok: "pass_ok full p \<Longrightarrow> pass_ok full (cite_item pf full t p)"
  by (cases full) (simp_all add: cite_item_def link_item_ok text_item_ok split: option.splits)

lemma fold_pass_ok:
  "(\<And>x p. pass_ok full p \<Longrightarrow> pass_ok full (f x p)) \<Longrightarrow> pass_ok full p \<Longrightarrow> pass_ok full (fold f xs p)"
  by (induction xs arbitrary: p) auto

lemma run_strategy_ok: "pass_ok full p \<Longrightarrow> pass_ok full (run_strategy pf full sn st p)"
  by (cases st) (auto intro!: fold_pass_ok link_item_ok text_item_ok cite_item_ok split: prod.splits)

lemma run_strategies_ok: "pass_ok full (run_strategies pf full sn)"
  unfolding run_strategies_def
  by (rule fold_pass_ok [OF run_strategy_ok pass_ok_init])

subsection \<open>The session filter\<close>

lemma filter_new_distinct:
  "distinct ds \<Longrightarrow> filter_new E ds = (E @ filter (\<lambda>d. d \<notin> set E) ds, filter (\<lambda>d. d \<notin> set E) ds)"
proof (induction ds arbitrary: E)
  case Nil
  then show ?case by simp
next
  case (Cons d ds)
  show ?case
  proof (cases "d \<in> set E")
    case True
    with Cons show ?thesis by simp
  next
    case False
    from Cons.prems have "d \<notin> set ds" "distinct ds" by auto
    then have "filter (\<lambda>x. x \<notin> set (E @ [d])) ds = filter (\<lambda>x. x \<notin> set E) ds"
      by (auto intro: filter_cong)
    with False Cons.IH [OF \<open>distinct ds\<close>, of "E @ [d]"] show ?thesis by simp
  qed
qed

lemma filter_new_seen: "set ds \<subseteq> set E \<Longrightarrow> filter_new E ds = (E, [])"
  by (induction ds) auto

lemma extractDomains_pass:
  assumes "isAutoExtractEnabled s" and "lastExtractTime s + EXTRACT_INTERVAL \<le> now"
    and "isGoogleSearchPage pg"
  shows "extractDomains pf now pg s =
    (let p = run_strategies pf (collectFullUrl s) (page_snapshot pg);
         r = filter (\<lambda>d. d \<notin> set (extractedDomains s)) (newDomains p);
         s2 = s\<lparr>lastExtractTime := now, extractedDomains := extractedDomains s @ r\<rparr>
     in if r \<noteq> [] then (s2, r, [SaveDomains r, SendToVPSMsg r, DomainsExtracted (length r) r, ShowFeedback (length r)])
        else (s2, [], []))"
proof -
  let ?p = "run_strategies pf (collectFullUrl s) (page_snapshot pg)"
  have "distinct (newDomains ?p)" using run_strategies_ok by (simp add: pass_ok_def)
  then show ?thesis
    using assms by (simp add: extractDomains_def filter_new_distinct Let_def)
qed


subsection \<open>Properties\<close>

text \<open>
  C20. Extracting the same page twice, the second time at least 500 ms later and with
  collection still on, reports the pass's items that were not yet in the session set the
  first time, and nothing the second time.
\<close>

theorem extractDomains_twice:
  assumes "isAutoExtractEnabled s" and "lastExtractTime s + EXTRACT_INTERVAL \<le> now"
    and "isGoogleSearchPage pg" and "now + EXTRACT_INTERVAL \<le> now'"
  shows "fst (snd (extractDomains pf now pg s)) =
           filter (\<lambda>d. d \<notin> set (extractedDomains s))
             (newDomains (run_strategies pf (collectFullUrl s) (page_snapshot pg))) \<and>
         snd (extractDomains pf now' pg (fst (extractDomains pf now pg s))) = ([], [])"
proof -
  let ?p = "run_strategies pf (collectFullUrl s) (page_snapshot pg)"
  let ?r = "filter (\<lambda>d. d \<notin> set (extractedDomains s)) (newDomains ?p)"
  let ?s2 = "s\<lparr>lastExtractTime := now, extractedDomains := extractedDomains s @ ?r\<rparr>"
  have first: "extractDomains pf now pg s =
    (if ?r \<noteq> [] then (?s2, ?r, [SaveDomains ?r, SendToVPSMsg ?r, DomainsExtracted (length ?r) ?r, ShowFeedback (length ?r)])
     else (?s2, [], []))"
    using extractDomains_pass [OF assms(1-3)] by (simp add: Let_def)
  have seen: "filter (\<lambda>d. d \<notin> set (extractedDomains ?s2)) (newDomains ?p) = []"
    by (auto simp: filter_empty_conv)
  have "snd (extractDomains pf now' pg ?s2) = ([], [])"
    using extractDomains_pass [of ?s2 now' pg pf] assms seen by (simp add: Let_def)
  with first show ?thesis by (cases "?r = []") simp_all
qed

text \<open>
  Rate limiting: while collection is on, a call less than 500 ms after the last
  counted one does nothing and reports nothing.
\<close>

theorem extractDomains_rate_limited:
  "isAutoExtractEnabled s \<Longrightarrow> now < lastExtractTime s + EXTRACT_INTERVAL \<Longrightarrow>
     extractDomains pf now pg s = (s, [], [])"
  by (simp add: extractDomains_def)

text \<open>
  C12. Every batch \<open>extractDomains\<close> reports has no duplicates, contains nothing the
  session set held before, and is exactly what the session set gains.
\<close>

theorem extractDomains_batch_fresh:
  "distinct (fst (snd (extractDomains pf now pg s))) \<and>
   set (fst (snd (extractDomains pf now pg s))) \<inter> set (extractedDomains s) = {} \<and>
   set (extractedDomains (fst (extractDomains pf now pg s))) =
     set (extractedDomains s) \<union> set (fst (snd (extractDomains pf now pg s)))"
proof (cases "isAutoExtractEnabled s \<and> lastExtractTime s + EXTRACT_INTERVAL \<le> now \<and> isGoogleSearchPage pg")
  case True
  let ?p = "run_strategies pf (collectFullUrl s) (page_snapshot pg)"
  have "distinct (newDomains ?p)" using run_strategies_ok by (simp add: pass_ok_def)
  with True show ?thesis
    by (auto simp: extractDomains_pass Let_def)
next
  case False
  then show ?thesis by (auto simp: extractDomains_def)
qed

text \<open>
  C21. In domain mode every item of a reported batch passes the validator.
\<close>

theorem extractDomains_domain_mode_valid:
  "\<not> collectFullUrl s \<Longrightarrow> list_all isValidDomain (fst (snd (extractDomains pf now pg s)))"
proof -
  assume dm: "\<not> collectFullUrl s"
  let ?p = "run_strategies pf (collectFullUrl s) (page_snapshot pg)"
  from dm have "list_all isValidDomain (newDomains ?p)"
    using run_strategies_ok [of "collectFullUrl s" pf "page_snapshot pg"] by (simp add: pass_ok_def)
  then show ?thesis
  proof (cases "isAutoExtractEnabled s \<and> lastExtractTime s + EXTRACT_INTERVAL \<le> now \<and> isGoogleSearchPage pg")
    case True
    with \<open>list_all isValidDomain (newDomains ?p)\<close> show ?thesis
      by (auto simp: extractDomains_pass Let_def list_all_iff)
  next
    case False
    then show ?thesis by (auto simp: extractDomains_def)
  qed
qed

text \<open>
  The text strategies lose every domain that contains \<open>http\<close>: the global
  replacement of \<open>https?\<close> by a space cuts \<open>thehttpguide.com\<close>, a valid domain, down to
  \<open>the\<close>, so a caption showing it yields nothing.
\<close>

theorem extractDomainFromText_drops_http_domains:
  "isValidDomain ''thehttpguide.com'' \<and> extractDomainFromText ''thehttpguide.com'' = None \<and>
   extractDomainFromText ''https://thehttpguide.com/a'' = None"
  by code_simp

end
