(* ===== verification/Store.thy ===== *)
theory Store
  imports Normalizer
begin

text \<open>
  The durable side of deduplication in the content script (\<open>src/content.js\<close>:
  \<open>saveDomains\<close> and the helper \<open>isDuplicate\<close>). \<open>saveDomains\<close> reads the stored list,
  rebuilds an insertion-ordered \<open>Map\<close> from normalised key to the first item with that
  key, first over the stored items and then over the new ones, and writes the map's
  values back. The \<open>Map\<close> is an association list in insertion order. The key is
  \<open>normalizeUrl\<close> in full-URL mode and \<open>normalizeDomain\<close> otherwise; a key that is
  \<open>null\<close> or empty is falsy and its item is skipped.
\<close>

definition item_key :: "platform \<Rightarrow> bool \<Rightarrow> js_string \<Rightarrow> js_string option" where
  \<comment> \<open>\<open>collectFullUrl ? normalizeUrl(domain) : normalizeDomain(domain)\<close>\<close>
  "item_key pf full d = (if full then normalizeUrl (pf_parse pf) (pf_enc pf) d else normalizeDomain d)"

fun merge_keys :: "(js_string \<Rightarrow> js_string option) \<Rightarrow> (js_string \<times> js_string) list \<Rightarrow> js_string list
                   \<Rightarrow> (js_string \<times> js_string) list" where
  \<comment> \<open>one \<open>for\<close> loop of \<open>saveDomains\<close>:
      \<open>if (normalized && !normalizedMap.has(normalized)) normalizedMap.set(normalized, domain)\<close>\<close>
  "merge_keys key m [] = m"
| "merge_keys key m (d # ds) =
     (case key d of
        Some k \<Rightarrow> if k \<noteq> [] \<and> k \<notin> set (map fst m) then merge_keys key (m @ [(k, d)]) ds
                  else merge_keys key m ds
      | None \<Rightarrow> merge_keys key m ds)"

definition saveDomains :: "platform \<Rightarrow> bool \<Rightarrow> js_string list \<Rightarrow> js_string list \<Rightarrow> js_string list" where
  \<comment> \<open>the list written back: existing items first, then the new ones\<close>
  "saveDomains pf full existingDomains newDomains =
     (let normalizedMap = merge_keys (item_key pf full) [] existingDomains;
          normalizedMap' = merge_keys (item_key pf full) normalizedMap newDomains
      in map snd normalizedMap')"

definition isDuplicate :: "platform \<Rightarrow> bool \<Rightarrow> js_string list \<Rightarrow> js_string \<Rightarrow> bool" where
  \<comment> \<open>defined in the source but never called\<close>
  "isDuplicate pf full extracted item = list_ex (\<lambda>e. item_key pf full e = item_key pf full item) extracted"

subsection \<open>The merge\<close>

definition keyed :: "(js_string \<Rightarrow> js_string option) \<Rightarrow> (js_string \<times> js_string) list \<Rightarrow> bool" where
  \<comment> \<open>the map's keys are distinct, non-empty, and each is the key of its value\<close>
  "keyed key m \<longleftrightarrow> distinct (map fst m) \<and> list_all (\<lambda>(k, d). k \<noteq> [] \<and> key d = Some k) m"

lemma merge_keys_append: "merge_keys key m (xs @ ys) = merge_keys key (merge_keys key m xs) ys"
  by (induction xs arbitrary: m) (auto split: option.splits)

lemma merge_keys_keyed: "keyed key m \<Longrightarrow> keyed key (merge_keys key m ds)"
  by (induction ds arbitrary: m) (auto simp: keyed_def split: option.splits)

lemma merge_keys_prefix: "\<exists>m'. merge_keys key m ds = m @ m' \<and> set (map snd m') \<subseteq> set ds"
proof (induction ds arbitrary: m)
  case Nil
  then show ?case by simp
next
  case (Cons d ds)
  show ?case
  proof (cases "key d")
    case None
    with Cons.IH [of m] show ?thesis by auto
  next
    case (Some k)
    show ?thesis
    proof (cases "k \<noteq> [] \<and> k \<notin> set (map fst m)")
      case True
      from Cons.IH [of "m @ [(k, d)]"] obtain m' where
        "merge_keys key (m @ [(k, d)]) ds = m @ [(k, d)] @ m'" and "set (map snd m') \<subseteq> set ds"
        by auto
      with Some True show ?thesis by (intro exI [of _ "(k, d) # m'"]) auto
    next
      case False
      with Some Cons.IH [of m] show ?thesis by auto
    qed
  qed
qed

lemma merge_keys_covers:
  "d \<in> set ds \<Longrightarrow> key d = Some k \<Longrightarrow> k \<noteq> [] \<Longrightarrow> k \<in> set (map fst (merge_keys key m ds))"
proof (induction ds arbitrary: m)
  case Nil
  then show ?case by simp
next
  case (Cons x ds)
  obtain m' where m': "merge_keys key m (x # ds) = m @ m'"
    using merge_keys_prefix by blast
  show ?case
  proof (cases "d = x")
    case True
    with Cons.prems show ?thesis
      using merge_keys_prefix [of key "m @ [(k, x)]" ds] merge_keys_prefix [of key m ds]
      by (auto split: if_splits)
  next
    case False
    with Cons.prems have "d \<in> set ds" by simp
    with Cons.IH Cons.prems show ?thesis by (auto split: option.splits)
  qed
qed

lemma merge_keys_keyed_id:
  "keyed key m \<Longrightarrow> keyed key (m @ m') \<Longrightarrow> merge_keys key m (map snd m') = m @ m'"
proof (induction m' arbitrary: m)
  case Nil
  then show ?case by simp
next
  case (Cons kd m')
  obtain k d where kd: "kd = (k, d)" by (cases kd)
  from Cons.prems kd have "key d = Some k" "k \<noteq> []" "k \<notin> set (map fst m)" "keyed key (m @ [(k, d)])"
    by (auto simp: keyed_def)
  with Cons.IH [of "m @ [(k, d)]"] Cons.prems kd show ?case by simp
qed

lemma merge_keys_stable: "\<forall>d\<in>set ds. \<forall>k. key d = Some k \<and> k \<noteq> [] \<longrightarrow> k \<in> set (map fst m) \<Longrightarrow>
    merge_keys key m ds = m"
  by (induction ds) (auto split: option.splits)


lemma keyed_Nil [simp]: "keyed key []"
  by (simp add: keyed_def)

lemma saveDomains_map:
  "saveDomains pf full old new = map snd (merge_keys (item_key pf full) [] (old @ new))"
  by (simp add: saveDomains_def merge_keys_append)

lemma keyed_keys: "keyed key m \<Longrightarrow> map (key \<circ> snd) m = map (Some \<circ> fst) m"
  by (induction m) (auto simp: keyed_def)

subsection \<open>Properties\<close>

text \<open>
  C8. The stored list never holds two items with the same normalised key, and every
  stored item has a non-empty key.
\<close>

theorem saveDomains_distinct_keys:
  "distinct (map (item_key pf full) (saveDomains pf full old new)) \<and>
   list_all (\<lambda>d. item_key pf full d \<noteq> None \<and> item_key pf full d \<noteq> Some []) (saveDomains pf full old new)"
proof -
  let ?m = "merge_keys (item_key pf full) [] (old @ new)"
  have k: "keyed (item_key pf full) ?m" by (rule merge_keys_keyed) simp
  then have "map (item_key pf full \<circ> snd) ?m = map (Some \<circ> fst) ?m" by (rule keyed_keys)
  moreover from k have "distinct (map (Some \<circ> fst) ?m)"
    by (simp add: keyed_def distinct_map inj_on_def)
  moreover from k have "list_all (\<lambda>d. item_key pf full d \<noteq> None \<and> item_key pf full d \<noteq> Some []) (map snd ?m)"
    by (auto simp: keyed_def list_all_iff)
  ultimately show ?thesis by (simp only: saveDomains_map map_map)
qed

text \<open>
  C27. Saving is idempotent: saving the same new items again onto the list the first
  save wrote leaves it unchanged.
\<close>

theorem saveDomains_idempotent:
  "saveDomains pf full (saveDomains pf full old new) new = saveDomains pf full old new"
proof -
  let ?key = "item_key pf full"
  let ?m = "merge_keys ?key [] (old @ new)"
  have k: "keyed ?key ?m" by (rule merge_keys_keyed) simp
  have again: "merge_keys ?key [] (map snd ?m) = ?m"
    using merge_keys_keyed_id [of ?key "[]" ?m] k by simp
  have "\<forall>d\<in>set new. \<forall>k. ?key d = Some k \<and> k \<noteq> [] \<longrightarrow> k \<in> set (map fst ?m)"
    using merge_keys_covers [where ds = "old @ new" and key = ?key and m = "[]"] by auto
  then have "merge_keys ?key ?m new = ?m" by (rule merge_keys_stable)
  with again show ?thesis
    by (simp add: saveDomains_map merge_keys_append)
qed

text \<open>
  C26. Nothing with a usable key is lost by a save: the stored and new items' keys are
  all represented in the list written back, by the first item seen with that key, and
  the items already stored keep their places ahead of the added ones.
\<close>

theorem saveDomains_covers:
  assumes "d \<in> set (old @ new)" and "item_key pf full d = Some k" and "k \<noteq> []"
  shows "(\<exists>d'\<in>set (saveDomains pf full old new). item_key pf full d' = Some k) \<and>
         (\<exists>added. saveDomains pf full old new = saveDomains pf full old [] @ added \<and> set added \<subseteq> set new)"
proof
  let ?key = "item_key pf full"
  let ?m = "merge_keys ?key [] (old @ new)"
  have "k \<in> set (map fst ?m)" using assms by (rule merge_keys_covers [where key = ?key and m = "[]"])
  then obtain d' where kd: "(k, d') \<in> set ?m" by auto
  have "keyed ?key ?m" by (rule merge_keys_keyed) simp
  with kd have "?key d' = Some k" by (auto simp: keyed_def list_all_iff)
  moreover from kd have "d' \<in> set (saveDomains pf full old new)"
    by (simp add: saveDomains_map) (metis snd_conv image_eqI)
  ultimately show "\<exists>d'\<in>set (saveDomains pf full old new). ?key d' = Some k" by blast
next
  obtain m' where "merge_keys (item_key pf full) (merge_keys (item_key pf full) [] old) new =
                     merge_keys (item_key pf full) [] old @ m'" and "set (map snd m') \<subseteq> set new"
    using merge_keys_prefix by blast
  then show "\<exists>added. saveDomains pf full old new = saveDomains pf full old [] @ added \<and> set added \<subseteq> set new"
    by (intro exI [of _ "map snd m'"]) (simp add: saveDomains_def)
qed

text \<open>
  Switching from full-URL mode to domain mode and saving makes the merge collapse
  the stored URLs of one host to the first of them: the others are deleted from storage.
\<close>

theorem saveDomains_mode_switch_deletes:
  "saveDomains pf False [''https://a.org/x'', ''https://a.org/y''] [''b.org''] = [''https://a.org/x'', ''b.org'']"
  by code_simp

end
