(* ===== verification/Delivery.thy ===== *)
theory Delivery
  imports Prelude
begin

text \<open>
  The delivery pipeline of the background service worker (\<open>src/background.js\<close>):
  the module state (\<open>connectionStatus\<close>, \<open>pendingDomains\<close>, \<open>retryTimeout\<close>,
  \<open>currentRetryDelay\<close>), the storage keys it writes (\<open>sentDomains\<close>, \<open>useHttps\<close>),
  the browser's timer table, and the handlers \<open>sendDomainsToVPS\<close>,
  \<open>scheduleRetry\<close>, \<open>retryPendingDomains\<close>, \<open>testConnection\<close>, the message listener and
  the periodic retry. The network is the environment: for each request the model is told
  the outcome of the \<open>fetch\<close> (a status and whether the body parses as JSON, a network
  error, or the 10 s abort). One call of an asynchronous handler is one step: its
  \<open>await\<close>s are not interleaved with other handlers.
\<close>

subsection \<open>State\<close>

definition MAX_RETRY_DELAY :: nat where "MAX_RETRY_DELAY = 30000"
definition INITIAL_RETRY_DELAY :: nat where "INITIAL_RETRY_DELAY = 2000"

datatype protocol = Http | Https

record conn_status =
  connected :: bool
  lastError :: "js_string option"
  lastSuccess :: "int option"

datatype timer_task = RetryTask | FlushTask "js_string list"

type_synonym timer = "nat \<times> nat \<times> timer_task"  \<comment> \<open>handle, delay in ms, callback\<close>

record bg_state =
  connectionStatus :: conn_status
  pendingDomains :: "js_string list"
  retryTimeout :: "nat option"
  currentRetryDelay :: nat
  timers :: "timer list"
  next_handle :: nat
  sentDomains :: nat
  useHttps :: bool

definition bg_init :: bg_state where
  \<comment> \<open>module initialisation and \<open>onInstalled\<close>\<close>
  "bg_init = \<lparr>connectionStatus = \<lparr>connected = False, lastError = None, lastSuccess = None\<rparr>,
              pendingDomains = [], retryTimeout = None, currentRetryDelay = INITIAL_RETRY_DELAY,
              timers = [], next_handle = 1, sentDomains = 0, useHttps = False\<rparr>"

subsection \<open>Environment and effects\<close>

datatype fetch_outcome =
    Response nat bool  \<comment> \<open>HTTP status, and whether \<open>response.json()\<close> resolves\<close>
  | NetworkError       \<comment> \<open>\<open>TypeError\<close>: refused, DNS, CORS\<close>
  | TimedOut           \<comment> \<open>\<open>AbortError\<close> after the timeout\<close>

record vps_config =
  vpsIp :: js_string
  vpsPort :: nat

record bg_env =
  env_cfg :: vps_config
  env_post :: "protocol \<Rightarrow> fetch_outcome"
  env_ping :: "protocol \<Rightarrow> fetch_outcome"
  env_now :: int

datatype bg_effect =
    Post protocol "js_string list" fetch_outcome
  | Ping protocol fetch_outcome
  | NotifySendSuccess nat
  | NotifySendError nat
  | TestResult "protocol option"
  | StatusReply conn_status

definition configured :: "vps_config \<Rightarrow> bool" where
  \<comment> \<open>\<open>!(!config.vpsIp || !config.vpsPort)\<close>\<close>
  "configured cfg \<longleftrightarrow> vpsIp cfg \<noteq> [] \<and> vpsPort cfg \<noteq> 0"

definition fetch_ok :: "fetch_outcome \<Rightarrow> bool" where
  \<comment> \<open>\<open>response.ok\<close> and the JSON body read without throwing\<close>
  "fetch_ok r = (case r of Response st js \<Rightarrow> 200 \<le> st \<and> st \<le> 299 \<and> js | _ \<Rightarrow> False)"

fun try_protocols :: "(protocol \<Rightarrow> fetch_outcome) \<Rightarrow> protocol list \<Rightarrow> protocol list \<times> protocol option" where
  \<comment> \<open>the \<open>for (const protocol of protocols)\<close> loop: the protocols tried, and the first that
      succeeded\<close>
  "try_protocols net [] = ([], None)"
| "try_protocols net (p # ps) =
     (if fetch_ok (net p) then ([p], Some p)
      else let (tried, r) = try_protocols net ps in (p # tried, r))"

definition protocols :: "protocol list" where
  "protocols = [Http, Https]"

subsection \<open>Timers\<close>

definition set_timeout :: "nat \<Rightarrow> timer_task \<Rightarrow> bg_state \<Rightarrow> bg_state \<times> nat" where
  "set_timeout d t s =
     (s\<lparr>timers := timers s @ [(next_handle s, d, t)], next_handle := Suc (next_handle s)\<rparr>, next_handle s)"

definition clear_timeout :: "nat \<Rightarrow> bg_state \<Rightarrow> bg_state" where
  "clear_timeout h s = s\<lparr>timers := filter (\<lambda>(h', _). h' \<noteq> h) (timers s)\<rparr>"

definition scheduleRetry :: "bg_state \<Rightarrow> bg_state" where
  "scheduleRetry s =
     (let s1 = (case retryTimeout s of None \<Rightarrow> s | Some h \<Rightarrow> clear_timeout h s);
          (s2, h) = set_timeout (currentRetryDelay s1) RetryTask s1
      in s2\<lparr>retryTimeout := Some h,
            currentRetryDelay := min (currentRetryDelay s2 * 2) MAX_RETRY_DELAY\<rparr>)"

subsection \<open>Sending\<close>

definition send_success :: "bg_env \<Rightarrow> protocol \<Rightarrow> js_string list \<Rightarrow> bg_state \<Rightarrow> bg_state" where
  \<comment> \<open>the \<open>response.ok\<close> branch: status, protocol preference, sent counter, backoff reset,
      and the hand-over of the pending queue to a 500 ms timer\<close>
  "send_success env p domains s =
     (let s1 = s\<lparr>connectionStatus := \<lparr>connected = True, lastError = None, lastSuccess = Some (env_now env)\<rparr>,
                 useHttps := (p = Https),
                 sentDomains := sentDomains s + length domains,
                 currentRetryDelay := INITIAL_RETRY_DELAY\<rparr>
      in if pendingDomains s1 \<noteq> [] then
           (let toSend = pendingDomains s1 in
            fst (set_timeout 500 (FlushTask toSend) (s1\<lparr>pendingDomains := []\<rparr>)))
         else s1)"

definition send_failure :: "js_string list \<Rightarrow> bg_state \<Rightarrow> bg_state" where
  \<comment> \<open>after both protocols failed: requeue, status, then \<open>scheduleRetry\<close>\<close>
  "send_failure domains s =
     scheduleRetry (s\<lparr>pendingDomains := js_set (pendingDomains s @ domains),
                      connectionStatus := \<lparr>connected = False, lastError = Some ''Connection failed'',
                                            lastSuccess = lastSuccess (connectionStatus s)\<rparr>\<rparr>)"

definition sendDomainsToVPS :: "bg_env \<Rightarrow> js_string list \<Rightarrow> bg_state \<Rightarrow> bg_state \<times> bg_effect list" where
  "sendDomainsToVPS env domains s =
     (if domains = [] then (s, [])
      else if \<not> configured (env_cfg env) then
        (s\<lparr>pendingDomains := js_set (pendingDomains s @ domains)\<rparr>, [])
      else
        let (tried, r) = try_protocols (env_post env) protocols;
            posts = map (\<lambda>p. Post p domains (env_post env p)) tried
        in case r of
             Some p \<Rightarrow> (send_success env p domains s, posts @ [NotifySendSuccess (length domains)])
           | None \<Rightarrow>
               (let s' = send_failure domains s
                in (s', posts @ [NotifySendError (length (pendingDomains s'))])))"

definition retryPendingDomains :: "bg_env \<Rightarrow> bg_state \<Rightarrow> bg_state \<times> bg_effect list" where
  "retryPendingDomains env s =
     (if pendingDomains s = [] then (s, [])
      else sendDomainsToVPS env (pendingDomains s) (s\<lparr>pendingDomains := []\<rparr>))"

definition testConnection :: "bg_env \<Rightarrow> bg_state \<Rightarrow> bg_state \<times> bg_effect list" where
  "testConnection env s =
     (let (tried, r) = try_protocols (env_ping env) protocols;
          pings = map (\<lambda>p. Ping p (env_ping env p)) tried
      in case r of
           Some p \<Rightarrow>
             (s\<lparr>useHttps := (p = Https),
                connectionStatus := \<lparr>connected = True, lastError = None, lastSuccess = Some (env_now env)\<rparr>,
                currentRetryDelay := INITIAL_RETRY_DELAY\<rparr>, pings @ [TestResult (Some p)])
         | None \<Rightarrow>
             (s\<lparr>connectionStatus := \<lparr>connected = False, lastError = Some ''Connection test failed'',
                                      lastSuccess = lastSuccess (connectionStatus s)\<rparr>\<rparr>,
              pings @ [TestResult None]))"

subsection \<open>Events\<close>

datatype bg_event =
    SendToVps "js_string list"  \<comment> \<open>message \<open>SEND_TO_VPS\<close>\<close>
  | RetryPendingMsg            \<comment> \<open>message \<open>RETRY_PENDING\<close>\<close>
  | ConfigUpdated              \<comment> \<open>message \<open>CONFIG_UPDATED\<close>\<close>
  | GetConnectionStatus        \<comment> \<open>message \<open>GET_CONNECTION_STATUS\<close>\<close>
  | Fire nat                   \<comment> \<open>the timer with this handle expires\<close>
  | PeriodicRetry              \<comment> \<open>the 60 s \<open>setInterval\<close>\<close>

definition fire_timer :: "bg_env \<Rightarrow> nat \<Rightarrow> bg_state \<Rightarrow> bg_state \<times> bg_effect list" where
  "fire_timer env h s =
     (case find (\<lambda>(h', _). h' = h) (timers s) of
        None \<Rightarrow> (s, [])
      | Some (_, _, task) \<Rightarrow>
          (let s' = clear_timeout h s in
           case task of
             RetryTask \<Rightarrow> retryPendingDomains env s'
           | FlushTask xs \<Rightarrow> sendDomainsToVPS env xs s'))"

fun bg_step :: "bg_env \<Rightarrow> bg_event \<Rightarrow> bg_state \<Rightarrow> bg_state \<times> bg_effect list" where
  "bg_step env (SendToVps ds) s = (if ds \<noteq> [] then sendDomainsToVPS env ds s else (s, []))"
| "bg_step env RetryPendingMsg s = retryPendingDomains env s"
| "bg_step env ConfigUpdated s = testConnection env s"
| "bg_step env GetConnectionStatus s = (s, [StatusReply (connectionStatus s)])"
| "bg_step env (Fire h) s = fire_timer env h s"
| "bg_step env PeriodicRetry s = (if pendingDomains s \<noteq> [] then retryPendingDomains env s else (s, []))"

fun bg_run :: "(bg_env \<times> bg_event) list \<Rightarrow> bg_state \<Rightarrow> bg_state \<times> bg_effect list" where
  "bg_run [] s = (s, [])"
| "bg_run ((env, ev) # evs) s =
     (let (s1, out1) = bg_step env ev s; (s2, out2) = bg_run evs s1 in (s2, out1 @ out2))"


subsection \<open>Invariant\<close>

text \<open>
  The invariant of the worker's state: the backoff delay lies between its initial value
  and its ceiling, every timer handle is below the next one the browser will hand out
  (so handles are fresh, and so is the one \<open>retryTimeout\<close> holds), handles are
  distinct, and the timers with the retry
  callback are exactly those whose handle \<open>retryTimeout\<close> holds.
\<close>

definition bg_inv :: "bg_state \<Rightarrow> bool" where
  "bg_inv s \<longleftrightarrow>
     INITIAL_RETRY_DELAY \<le> currentRetryDelay s \<and> currentRetryDelay s \<le> MAX_RETRY_DELAY \<and>
     distinct (map fst (timers s)) \<and>
     (case retryTimeout s of None \<Rightarrow> True | Some h \<Rightarrow> h < next_handle s) \<and>
     list_all (\<lambda>(h, d, t). h < next_handle s \<and> (t = RetryTask \<longleftrightarrow> retryTimeout s = Some h)) (timers s)"

subsection \<open>Where the items are\<close>

fun task_items :: "timer_task \<Rightarrow> js_string set" where
  "task_items RetryTask = {}"
| "task_items (FlushTask xs) = set xs"

definition timer_items :: "bg_state \<Rightarrow> js_string set" where
  "timer_items s = (\<Union>tm\<in>set (timers s). task_items (snd (snd tm)))"

definition held :: "bg_state \<Rightarrow> js_string set" where
  \<comment> \<open>the items the worker still holds: the pending queue and the batches of flush timers\<close>
  "held s = set (pendingDomains s) \<union> timer_items s"

fun submitted :: "bg_event \<Rightarrow> js_string set" where
  "submitted (SendToVps ds) = set ds"
| "submitted _ = {}"

fun accepted :: "bg_effect \<Rightarrow> js_string set" where
  \<comment> \<open>items of a \<open>POST\<close> the code counted as delivered\<close>
  "accepted (Post p xs r) = (if fetch_ok r then set xs else {})"
| "accepted _ = {}"

named_theorems bg_defs "unfolding rules for the worker's handlers"
declare set_timeout_def [bg_defs] clear_timeout_def [bg_defs] scheduleRetry_def [bg_defs]
  send_success_def [bg_defs] send_failure_def [bg_defs]

lemma bg_inv_init: "bg_inv bg_init"
  by (simp add: bg_inv_def bg_init_def INITIAL_RETRY_DELAY_def MAX_RETRY_DELAY_def)

lemma try_protocols_Some:
  "try_protocols net ps = (tried, Some p) \<Longrightarrow> fetch_ok (net p) \<and> p \<in> set ps \<and> p \<in> set tried"
  by (induction ps arbitrary: tried) (auto split: if_splits prod.splits)

lemma try_protocols_None: "try_protocols net ps = (tried, None) \<Longrightarrow> tried = ps \<and> (\<forall>p\<in>set ps. \<not> fetch_ok (net p))"
  by (induction ps arbitrary: tried) (auto split: if_splits prod.splits)

lemma try_protocols_two:
  "try_protocols net protocols =
     (if fetch_ok (net Http) then ([Http], Some Http)
      else if fetch_ok (net Https) then ([Http, Https], Some Https) else ([Http, Https], None))"
  by (simp add: protocols_def)

lemma clear_timeout_inv:
  assumes "bg_inv s" and "retryTimeout s = Some h"
  shows "list_all (\<lambda>(h', d, t). h' < next_handle s \<and> t \<noteq> RetryTask) (timers (clear_timeout h s))"
    and "distinct (map fst (timers (clear_timeout h s)))"
  using assms by (auto simp: bg_inv_def clear_timeout_def list_all_iff distinct_map_filter)

lemma scheduleRetry_fields [simp]:
  "pendingDomains (scheduleRetry s) = pendingDomains s"
  "connectionStatus (scheduleRetry s) = connectionStatus s"
  "sentDomains (scheduleRetry s) = sentDomains s"
  "useHttps (scheduleRetry s) = useHttps s"
  "currentRetryDelay (scheduleRetry s) = min (currentRetryDelay s * 2) MAX_RETRY_DELAY"
  by (simp_all add: bg_defs split: option.splits)

lemma scheduleRetry_timers:
  "timers (scheduleRetry s) =
     (case retryTimeout s of None \<Rightarrow> timers s | Some h \<Rightarrow> filter (\<lambda>(h', _). h' \<noteq> h) (timers s))
       @ [(next_handle s, currentRetryDelay s, RetryTask)]"
  "retryTimeout (scheduleRetry s) = Some (next_handle s)"
  "next_handle (scheduleRetry s) = Suc (next_handle s)"
  by (simp_all add: bg_defs split: option.splits)

lemma delay_step_bounds:
  "INITIAL_RETRY_DELAY \<le> d \<Longrightarrow> INITIAL_RETRY_DELAY \<le> min (d * 2) MAX_RETRY_DELAY \<and> min (d * 2) MAX_RETRY_DELAY \<le> MAX_RETRY_DELAY"
  by (simp add: INITIAL_RETRY_DELAY_def MAX_RETRY_DELAY_def)

lemma scheduleRetry_inv:
  assumes inv: "bg_inv s"
  shows "bg_inv (scheduleRetry s)"
proof -
  have old: "list_all (\<lambda>(h', d, t). h' < next_handle s \<and> t \<noteq> RetryTask)
               (case retryTimeout s of None \<Rightarrow> timers s | Some h \<Rightarrow> filter (\<lambda>(h', _). h' \<noteq> h) (timers s))"
    using inv by (auto simp: bg_inv_def list_all_iff split: option.splits)
  have dist: "distinct (map fst
               (case retryTimeout s of None \<Rightarrow> timers s | Some h \<Rightarrow> filter (\<lambda>(h', _). h' \<noteq> h) (timers s)))"
    using inv by (auto simp: bg_inv_def distinct_map_filter split: option.splits)
  have fresh: "next_handle s \<notin> fst ` set
               (case retryTimeout s of None \<Rightarrow> timers s | Some h \<Rightarrow> filter (\<lambda>(h', _). h' \<noteq> h) (timers s))"
    using old by (force simp: list_all_iff)
  show ?thesis
    using inv old dist fresh delay_step_bounds
    by (auto simp: bg_inv_def scheduleRetry_timers list_all_iff split: option.splits intro: less_SucI)
qed


lemma set_timeout_inv:
  assumes "bg_inv s" and "t \<noteq> RetryTask"
  shows "bg_inv (fst (set_timeout d t s))"
proof -
  have "next_handle s \<notin> fst ` set (timers s)"
    using assms(1) by (force simp: bg_inv_def list_all_iff)
  then show ?thesis
    using assms by (auto simp: bg_inv_def set_timeout_def list_all_iff split: option.splits)
qed

lemma bg_inv_fields:
  "bg_inv s \<Longrightarrow> bg_inv (s\<lparr>pendingDomains := ps\<rparr>)"
  "bg_inv s \<Longrightarrow> bg_inv (s\<lparr>connectionStatus := c\<rparr>)"
  "bg_inv s \<Longrightarrow> bg_inv (s\<lparr>useHttps := b\<rparr>)"
  "bg_inv s \<Longrightarrow> bg_inv (s\<lparr>sentDomains := n\<rparr>)"
  "bg_inv s \<Longrightarrow> bg_inv (s\<lparr>currentRetryDelay := INITIAL_RETRY_DELAY\<rparr>)"
  by (simp_all add: bg_inv_def INITIAL_RETRY_DELAY_def MAX_RETRY_DELAY_def split: option.splits)

lemma send_success_inv: "bg_inv s \<Longrightarrow> bg_inv (send_success env p ds s)"
  by (simp add: send_success_def Let_def bg_inv_fields set_timeout_inv)

lemma send_failure_inv: "bg_inv s \<Longrightarrow> bg_inv (send_failure ds s)"
  by (simp add: send_failure_def bg_inv_fields scheduleRetry_inv)

lemma sendDomainsToVPS_inv: "bg_inv s \<Longrightarrow> bg_inv (fst (sendDomainsToVPS env ds s))"
  by (auto simp: sendDomainsToVPS_def Let_def bg_inv_fields send_success_inv send_failure_inv
           split: prod.splits option.splits)

lemma retryPendingDomains_inv: "bg_inv s \<Longrightarrow> bg_inv (fst (retryPendingDomains env s))"
  by (simp add: retryPendingDomains_def bg_inv_fields sendDomainsToVPS_inv)

lemma testConnection_inv: "bg_inv s \<Longrightarrow> bg_inv (fst (testConnection env s))"
  by (auto simp: testConnection_def Let_def bg_inv_def INITIAL_RETRY_DELAY_def MAX_RETRY_DELAY_def
           split: prod.splits option.splits)

lemma clear_timeout_fire_inv:
  assumes "bg_inv s" and "find (\<lambda>(h', _). h' = h) (timers s) = Some (h, d, t)"
  shows "bg_inv (clear_timeout h s)"
  using assms by (auto simp: bg_inv_def clear_timeout_def list_all_iff distinct_map_filter
                       split: option.splits)

lemma fire_timer_inv: "bg_inv s \<Longrightarrow> bg_inv (fst (fire_timer env h s))"
proof -
  assume inv: "bg_inv s"
  show ?thesis
  proof (cases "find (\<lambda>(h', _). h' = h) (timers s)")
    case None
    with inv show ?thesis by (simp add: fire_timer_def)
  next
    case (Some tm)
    then obtain h' d t where tm: "tm = (h', d, t)" by (cases tm) auto
    with Some have "h' = h" by (auto dest: find_Some_iff [THEN iffD1])
    with Some tm inv have "bg_inv (clear_timeout h s)"
      using clear_timeout_fire_inv by blast
    with Some tm show ?thesis
      by (cases t) (simp_all add: fire_timer_def retryPendingDomains_inv sendDomainsToVPS_inv)
  qed
qed

lemma bg_step_inv: "bg_inv s \<Longrightarrow> bg_inv (fst (bg_step env ev s))"
  by (cases ev) (simp_all add: sendDomainsToVPS_inv retryPendingDomains_inv testConnection_inv
                   fire_timer_inv)

lemma bg_run_inv: "bg_inv s \<Longrightarrow> bg_inv (fst (bg_run evs s))"
proof (induction evs arbitrary: s)
  case Nil
  then show ?case by simp
next
  case (Cons e evs)
  obtain env ev where e: "e = (env, ev)" by (cases e)
  from Cons.prems have "bg_inv (fst (bg_step env ev s))" by (rule bg_step_inv)
  then have "bg_inv (fst (bg_run evs (fst (bg_step env ev s))))" by (rule Cons.IH)
  with e show ?case by (simp add: split_def Let_def)
qed


lemma held_fields [simp]:
  "held (s\<lparr>connectionStatus := c\<rparr>) = held s"
  "held (s\<lparr>useHttps := b\<rparr>) = held s"
  "held (s\<lparr>sentDomains := n\<rparr>) = held s"
  "held (s\<lparr>currentRetryDelay := d\<rparr>) = held s"
  "held (s\<lparr>pendingDomains := ps\<rparr>) = set ps \<union> timer_items s"
  by (simp_all add: held_def timer_items_def)

lemma held_scheduleRetry: "bg_inv s \<Longrightarrow> held (scheduleRetry s) = held s"
  by (auto simp: held_def timer_items_def scheduleRetry_timers bg_inv_def list_all_iff split: option.splits)

lemma held_send_success: "held (send_success env p ds s) = held s"
  by (auto simp: held_def timer_items_def send_success_def set_timeout_def Let_def)

lemma held_send_failure: "bg_inv s \<Longrightarrow> held (send_failure ds s) = held s \<union> set ds"
  by (simp add: send_failure_def held_scheduleRetry bg_inv_fields) (auto simp: held_def timer_items_def)

lemma sendDomainsToVPS_keeps:
  assumes "bg_inv s" and "sendDomainsToVPS env ds s = (s', out)"
  shows "held s \<union> set ds \<subseteq> held s' \<union> (\<Union>x\<in>set out. accepted x)"
proof (cases "ds = []")
  case True
  with assms(2) show ?thesis by (auto simp: sendDomainsToVPS_def)
next
  case ne: False
  show ?thesis
  proof (cases "configured (env_cfg env)")
  case False
  with ne assms(2) show ?thesis by (auto simp: sendDomainsToVPS_def held_def timer_items_def)
next
  case True
  then have False: "\<not> (ds = [] \<or> \<not> configured (env_cfg env))" using ne by simp
  obtain tried r where tr: "try_protocols (env_post env) protocols = (tried, r)" by fastforce
  show ?thesis
  proof (cases r)
    case None
    with False tr assms(2) have "s' = send_failure ds s"
      by (auto simp: sendDomainsToVPS_def Let_def)
    with assms(1) show ?thesis by (simp add: held_send_failure)
  next
    case (Some p)
    with tr have ok: "fetch_ok (env_post env p)" and "p \<in> set tried"
      using try_protocols_Some by blast+
    with False tr Some assms have "set ds \<subseteq> (\<Union>x\<in>set out. accepted x)"
      by (auto simp: sendDomainsToVPS_def)
    moreover from False tr Some assms(2) have "held s' = held s"
      by (auto simp: sendDomainsToVPS_def held_send_success)
    ultimately show ?thesis by blast
  qed
  qed
qed


lemma retryPendingDomains_keeps:
  assumes "bg_inv s" and "retryPendingDomains env s = (s', out)"
  shows "held s \<subseteq> held s' \<union> (\<Union>x\<in>set out. accepted x)"
proof (cases "pendingDomains s = []")
  case True
  with assms(2) show ?thesis by (simp add: retryPendingDomains_def)
next
  case False
  let ?s1 = "s\<lparr>pendingDomains := []\<rparr>"
  from assms(1) have "bg_inv ?s1" by (rule bg_inv_fields)
  moreover from False assms(2) have "sendDomainsToVPS env (pendingDomains s) ?s1 = (s', out)"
    by (simp add: retryPendingDomains_def)
  ultimately have "held ?s1 \<union> set (pendingDomains s) \<subseteq> held s' \<union> (\<Union>x\<in>set out. accepted x)"
    by (rule sendDomainsToVPS_keeps)
  then show ?thesis by (auto simp: held_def timer_items_def)
qed

lemma held_testConnection [simp]: "held (fst (testConnection env s)) = held s"
  by (auto simp: testConnection_def Let_def split: prod.splits option.splits)

lemma find_handle_unique:
  assumes "find (\<lambda>(h', _). h' = h) xs = Some x" and "distinct (map fst xs)"
  shows "set xs \<subseteq> insert x (set (filter (\<lambda>(h', _). h' \<noteq> h) xs))"
proof
  fix y assume y: "y \<in> set xs"
  from find_Some_mem [OF assms(1)] have x: "x \<in> set xs" "fst x = h"
    by (auto split: prod.splits)
  show "y \<in> insert x (set (filter (\<lambda>(h', _). h' \<noteq> h) xs))"
  proof (cases "fst y = h")
    case True
    with x y assms(2) have "y = x"
      by (metis distinct_map inj_on_contraD)
    then show ?thesis by simp
  next
    case False
    with y show ?thesis by (auto split: prod.splits)
  qed
qed

lemma fire_timer_keeps:
  assumes inv: "bg_inv s" and st: "fire_timer env h s = (s', out)"
  shows "held s \<subseteq> held s' \<union> (\<Union>x\<in>set out. accepted x)"
proof (cases "find (\<lambda>(h', _). h' = h) (timers s)")
  case None
  with st show ?thesis by (simp add: fire_timer_def)
next
  case (Some tm)
  obtain h' d t where tm: "tm = (h', d, t)" by (cases tm) auto
  let ?s1 = "clear_timeout h s"
  from Some tm have "h' = h" by (auto dest: find_Some_iff [THEN iffD1])
  with Some tm inv have inv1: "bg_inv ?s1"
    using clear_timeout_fire_inv by blast
  from inv have "distinct (map fst (timers s))" by (simp add: bg_inv_def)
  with Some have "set (timers s) \<subseteq> insert tm (set (timers ?s1))"
    using find_handle_unique [OF Some] by (simp add: clear_timeout_def)
  with tm have held1: "held s \<subseteq> held ?s1 \<union> task_items t"
    by (force simp: held_def timer_items_def clear_timeout_def)
  show ?thesis
  proof (cases t)
    case RetryTask
    with Some tm st have "retryPendingDomains env ?s1 = (s', out)" by (simp add: fire_timer_def)
    with inv1 have "held ?s1 \<subseteq> held s' \<union> (\<Union>x\<in>set out. accepted x)"
      by (rule retryPendingDomains_keeps)
    with held1 RetryTask show ?thesis by auto
  next
    case (FlushTask xs)
    with Some tm st have "sendDomainsToVPS env xs ?s1 = (s', out)" by (simp add: fire_timer_def)
    with inv1 have "held ?s1 \<union> set xs \<subseteq> held s' \<union> (\<Union>x\<in>set out. accepted x)"
      by (rule sendDomainsToVPS_keeps)
    with held1 FlushTask show ?thesis by auto
  qed
qed

lemma bg_step_keeps:
  assumes inv: "bg_inv s" and st: "bg_step env ev s = (s', out)"
  shows "held s \<union> submitted ev \<subseteq> held s' \<union> (\<Union>x\<in>set out. accepted x)"
proof (cases ev)
  case (SendToVps ds)
  show ?thesis
  proof (cases "ds = []")
    case False
    with SendToVps st have "sendDomainsToVPS env ds s = (s', out)" by simp
    with inv SendToVps show ?thesis using sendDomainsToVPS_keeps by simp
  qed (use SendToVps st in auto)
next
  case RetryPendingMsg
  with inv st show ?thesis using retryPendingDomains_keeps by simp
next
  case ConfigUpdated
  with st show ?thesis by (metis Un_empty_right bg_step.simps(3) fst_conv held_testConnection
                              submitted.simps(3) sup.cobounded1)
next
  case GetConnectionStatus
  with st show ?thesis by auto
next
  case (Fire h)
  with inv st show ?thesis using fire_timer_keeps by simp
next
  case PeriodicRetry
  with inv st show ?thesis using retryPendingDomains_keeps by (auto split: if_splits)
qed

lemma bg_run_keeps:
  "bg_inv s \<Longrightarrow> held s \<union> (\<Union>e\<in>set evs. submitted (snd e))
     \<subseteq> held (fst (bg_run evs s)) \<union> (\<Union>x\<in>set (snd (bg_run evs s)). accepted x)"
proof (induction evs arbitrary: s)
  case Nil
  then show ?case by simp
next
  case (Cons e evs)
  obtain env ev where e: "e = (env, ev)" by (cases e)
  obtain s1 out1 where st: "bg_step env ev s = (s1, out1)" by fastforce
  have step: "held s \<union> submitted ev \<subseteq> held s1 \<union> (\<Union>x\<in>set out1. accepted x)"
    using Cons.prems st by (rule bg_step_keeps)
  have "bg_inv s1" using bg_step_inv [OF Cons.prems, of env ev] st by simp
  then have rest: "held s1 \<union> (\<Union>e\<in>set evs. submitted (snd e))
     \<subseteq> held (fst (bg_run evs s1)) \<union> (\<Union>x\<in>set (snd (bg_run evs s1)). accepted x)"
    by (rule Cons.IH)
  show ?case
    using step rest e st by (auto simp: split_def Let_def)
qed

lemma retry_timers_le_one:
  "distinct (map fst xs) \<Longrightarrow> \<forall>(h, d, t)\<in>set xs. t = RetryTask \<longrightarrow> h = hr \<Longrightarrow>
     length (filter (\<lambda>(h, d, t). t = RetryTask) xs) \<le> 1"
proof (induction xs)
  case Nil
  then show ?case by simp
next
  case (Cons x xs)
  obtain h d t where x: "x = (h, d, t)" by (cases x) auto
  show ?case
  proof (cases "t = RetryTask")
    case True
    with Cons.prems x have "h = hr" by auto
    with Cons.prems x have "\<forall>(h', d', t')\<in>set xs. t' \<noteq> RetryTask"
      by fastforce
    then have "filter (\<lambda>(h, d, t). t = RetryTask) xs = []"
      by (auto simp: filter_empty_conv)
    with True x show ?thesis by simp
  next
    case False
    with Cons x show ?thesis by auto
  qed
qed

lemma bg_inv_one_retry_timer:
  "bg_inv s \<Longrightarrow> length (filter (\<lambda>(h, d, t). t = RetryTask) (timers s)) \<le> 1"
proof -
  assume inv: "bg_inv s"
  show ?thesis
  proof (cases "retryTimeout s")
    case None
    with inv have "filter (\<lambda>(h, d, t). t = RetryTask) (timers s) = []"
      by (auto simp: bg_inv_def list_all_iff filter_empty_conv)
    then show ?thesis by simp
  next
    case (Some hr)
    with inv show ?thesis
      by (intro retry_timers_le_one [where hr = hr]) (auto simp: bg_inv_def list_all_iff)
  qed
qed

lemmas bg_eval = sendDomainsToVPS_def retryPendingDomains_def fire_timer_def try_protocols_two
  fetch_ok_def configured_def bg_init_def INITIAL_RETRY_DELAY_def MAX_RETRY_DELAY_def
  send_failure_def send_success_def scheduleRetry_def set_timeout_def clear_timeout_def js_set_def
  testConnection_def

lemma failed_sweep:
  assumes "configured (env_cfg env)" "\<not> fetch_ok (env_post env Http)" "\<not> fetch_ok (env_post env Https)"
    and "pendingDomains s \<noteq> []"
  shows "fst (bg_step env PeriodicRetry s) = send_failure (pendingDomains s) (s\<lparr>pendingDomains := []\<rparr>)"
  using assms by (simp add: retryPendingDomains_def sendDomainsToVPS_def try_protocols_two Let_def)

lemma send_failure_retry_timers:
  assumes "bg_inv s"
  shows "filter (\<lambda>(h, d, t). t = RetryTask) (timers (send_failure ds s)) =
           [(next_handle s, currentRetryDelay s, RetryTask)]"
  using assms
  by (cases "retryTimeout s")
     (auto simp: send_failure_def scheduleRetry_timers bg_inv_def list_all_iff filter_empty_conv)

lemma min_double_pow: "min (min (d * 2) M * 2 ^ n) M = min (d * 2 ^ Suc n) (M :: nat)"
proof (cases "d * 2 \<le> M")
  case True
  then show ?thesis by (simp add: mult.assoc)
next
  case False
  have p: "1 \<le> (2::nat) ^ n" by simp
  have "2 * 1 \<le> 2 * (2::nat) ^ n" using p by (rule mult_le_mono2)
  then have "d * (2 * 1) \<le> d * (2 * 2 ^ n)" by (rule mult_le_mono2)
  then have "d * 2 \<le> d * 2 ^ Suc n" by simp
  then have "M < d * 2 ^ Suc n" using False by linarith
  have "M \<le> M * 2 ^ n" using p by simp
  have "min (min (d * 2) M * 2 ^ n) M = min (M * 2 ^ n) M" using False by simp
  also have "\<dots> = M" using \<open>M \<le> M * 2 ^ n\<close> by (rule min_absorb2)
  also have "\<dots> = min (d * 2 ^ Suc n) M" using \<open>M < d * 2 ^ Suc n\<close> by simp
  finally show ?thesis .
qed

lemma fst_bg_run_Cons: "fst (bg_run ((env, ev) # evs) s) = fst (bg_run evs (fst (bg_step env ev s)))"
  by (simp add: split_def Let_def)

subsection \<open>Properties\<close>

text \<open>
  C1. No item is lost: along any sequence of messages, timer expiries and periodic
  sweeps, whatever the network does, every item ever handed to the worker in a
  \<open>SEND_TO_VPS\<close> message is afterwards either in the pending queue, in the batch of an
  armed flush timer, or in a \<open>POST\<close> the worker counted as delivered.
\<close>

theorem bg_run_no_loss:
  "(\<Union>e\<in>set evs. submitted (snd e))
     \<subseteq> held (fst (bg_run evs bg_init)) \<union> (\<Union>x\<in>set (snd (bg_run evs bg_init)). accepted x)"
  using bg_run_keeps [OF bg_inv_init, of evs] by blast

text \<open>
  C5. In every state the worker reaches, the backoff delay is between 2000 ms and
  30000 ms and at most one retry timer is armed.
\<close>

theorem bg_run_backoff_safe:
  "INITIAL_RETRY_DELAY \<le> currentRetryDelay (fst (bg_run evs bg_init)) \<and>
   currentRetryDelay (fst (bg_run evs bg_init)) \<le> MAX_RETRY_DELAY \<and>
   length (filter (\<lambda>(h, d, t). t = RetryTask) (timers (fst (bg_run evs bg_init)))) \<le> 1"
proof -
  have "bg_inv (fst (bg_run evs bg_init))" by (rule bg_run_inv [OF bg_inv_init])
  then show ?thesis using bg_inv_one_retry_timer by (simp add: bg_inv_def)
qed


subsection \<open>The branches of sendDomainsToVPS\<close>

text \<open>
  C9. When the endpoint is configured and both protocols fail, \<open>sendDomainsToVPS\<close>
  posts the batch over HTTP and then HTTPS, merges it into the pending queue without
  duplicates, marks the connection down with an error, arms a retry timer at the current
  delay (cancelling the previous one) and doubles the delay up to the ceiling.
\<close>

theorem sendDomainsToVPS_failure:
  assumes "ds \<noteq> []" and "configured (env_cfg env)"
    and "\<not> fetch_ok (env_post env Http)" and "\<not> fetch_ok (env_post env Https)"
  shows "let (s', out) = sendDomainsToVPS env ds s in
    pendingDomains s' = js_set (pendingDomains s @ ds) \<and>
    connectionStatus s' = \<lparr>connected = False, lastError = Some ''Connection failed'',
                           lastSuccess = lastSuccess (connectionStatus s)\<rparr> \<and>
    retryTimeout s' = Some (next_handle s) \<and>
    timers s' = (case retryTimeout s of None \<Rightarrow> timers s | Some h \<Rightarrow> filter (\<lambda>(h', _). h' \<noteq> h) (timers s))
                @ [(next_handle s, currentRetryDelay s, RetryTask)] \<and>
    currentRetryDelay s' = min (currentRetryDelay s * 2) MAX_RETRY_DELAY \<and>
    sentDomains s' = sentDomains s \<and>
    out = [Post Http ds (env_post env Http), Post Https ds (env_post env Https),
           NotifySendError (length (js_set (pendingDomains s @ ds)))]"
  using assms
  by (simp add: sendDomainsToVPS_def try_protocols_two send_failure_def scheduleRetry_timers
                scheduleRetry_fields split: option.splits)

text \<open>
  C10. When the endpoint is configured and a protocol answers, HTTP being tried first:
  the batch is posted to the protocols tried in order, the connection is marked up, the
  sent counter grows by the batch's length, the delay is reset to 2000 ms, and a
  non-empty pending queue moves into a 500 ms flush timer.
\<close>

theorem sendDomainsToVPS_success:
  assumes "ds \<noteq> []" and "configured (env_cfg env)"
    and "fetch_ok (env_post env Http) \<or> fetch_ok (env_post env Https)"
  shows "let (s', out) = sendDomainsToVPS env ds s;
             p = (if fetch_ok (env_post env Http) then Http else Https) in
    connectionStatus s' = \<lparr>connected = True, lastError = None, lastSuccess = Some (env_now env)\<rparr> \<and>
    sentDomains s' = sentDomains s + length ds \<and>
    currentRetryDelay s' = INITIAL_RETRY_DELAY \<and>
    useHttps s' = (p = Https) \<and>
    pendingDomains s' = [] \<and>
    retryTimeout s' = retryTimeout s \<and>
    timers s' = timers s @ (if pendingDomains s = [] then [] else [(next_handle s, 500, FlushTask (pendingDomains s))]) \<and>
    out = (if p = Http then [Post Http ds (env_post env Http)]
           else [Post Http ds (env_post env Http), Post Https ds (env_post env Https)])
          @ [NotifySendSuccess (length ds)]"
  using assms
  by (auto simp: sendDomainsToVPS_def try_protocols_two send_success_def set_timeout_def Let_def)

text \<open>
  Without a configured endpoint a non-empty batch is only merged into the pending
  queue: nothing is posted, no timer is armed and the delay is unchanged.
\<close>

theorem sendDomainsToVPS_unconfigured:
  "ds \<noteq> [] \<Longrightarrow> \<not> configured (env_cfg env) \<Longrightarrow>
     sendDomainsToVPS env ds s = (s\<lparr>pendingDomains := js_set (pendingDomains s @ ds)\<rparr>, [])"
  by (simp add: sendDomainsToVPS_def)

text \<open>
  C32. A successful connection test resets the backoff delay to its initial value (and
  leaves the pending queue and the timers alone), so it does touch the backoff state.
\<close>

theorem testConnection_resets_backoff:
  "fetch_ok (env_ping env Http) \<or> fetch_ok (env_ping env Https) \<Longrightarrow>
     currentRetryDelay (fst (testConnection env s)) = INITIAL_RETRY_DELAY \<and>
     pendingDomains (fst (testConnection env s)) = pendingDomains s \<and>
     timers (fst (testConnection env s)) = timers s"
  by (auto simp: testConnection_def try_protocols_two Let_def)

text \<open>
  C11. Exponential backoff, for any number of attempts: while both protocols fail, each
  periodic sweep of a non-empty queue arms the single retry timer with the current
  delay and doubles the delay up to the 30 s ceiling, so after \<open>k + 1\<close> failed sweeps the
  delay is \<open>min (d * 2 ^ (k + 1)) 30000\<close> and the one retry timer armed waits
  \<open>min (d * 2 ^ k) 30000\<close> ms.
\<close>

theorem failed_sweeps_backoff:
  assumes "bg_inv s" and "configured (env_cfg env)"
    and "\<not> fetch_ok (env_post env Http)" and "\<not> fetch_ok (env_post env Https)" and "pendingDomains s \<noteq> []"
  shows "currentRetryDelay (fst (bg_run (replicate (Suc k) (env, PeriodicRetry)) s)) =
           min (currentRetryDelay s * 2 ^ Suc k) 30000 \<and>
         map (\<lambda>(h, d, t). d) (filter (\<lambda>(h, d, t). t = RetryTask) (timers (fst (bg_run (replicate (Suc k) (env, PeriodicRetry)) s)))) =
           [min (currentRetryDelay s * 2 ^ k) 30000]"
  using assms(1,5)
proof (induction k arbitrary: s)
  case 0
  have run: "fst (bg_run (replicate (Suc 0) (env, PeriodicRetry)) s) =
               send_failure (pendingDomains s) (s\<lparr>pendingDomains := []\<rparr>)"
    by (simp only: replicate_Suc replicate_0 fst_bg_run_Cons failed_sweep [OF assms(2-4) 0(2)]) simp
  have "bg_inv (s\<lparr>pendingDomains := []\<rparr>)" using 0(1) by (rule bg_inv_fields)
  then have t: "filter (\<lambda>(h, d, t). t = RetryTask) (timers (send_failure (pendingDomains s) (s\<lparr>pendingDomains := []\<rparr>))) =
                  [(next_handle s, currentRetryDelay s, RetryTask)]"
    by (simp add: send_failure_retry_timers)
  have "currentRetryDelay s \<le> 30000" using 0(1) by (simp add: bg_inv_def MAX_RETRY_DELAY_def)
  then show ?case
    unfolding run t by (simp add: send_failure_def MAX_RETRY_DELAY_def)
next
  case (Suc k)
  let ?s1 = "fst (bg_step env PeriodicRetry s)"
  have s1: "?s1 = send_failure (pendingDomains s) (s\<lparr>pendingDomains := []\<rparr>)"
    using failed_sweep [OF assms(2-4) Suc.prems(2)] .
  have inv1: "bg_inv ?s1" using Suc.prems(1) by (rule bg_step_inv)
  have "set (pendingDomains ?s1) = set (pendingDomains s)" unfolding s1 by (simp add: send_failure_def)
  then have pend1: "pendingDomains ?s1 \<noteq> []" using Suc.prems(2) by auto
  have d1: "currentRetryDelay ?s1 = min (currentRetryDelay s * 2) 30000"
    unfolding s1 by (simp add: send_failure_def MAX_RETRY_DELAY_def)
  have r: "fst (bg_run (replicate (Suc (Suc k)) (env, PeriodicRetry)) s) =
            fst (bg_run (replicate (Suc k) (env, PeriodicRetry)) ?s1)"
    by (subst replicate_Suc) (rule fst_bg_run_Cons)
  show ?case unfolding r using Suc.IH [OF inv1 pend1, unfolded d1 min_double_pow] .
qed

end
