(* ===== verification/DeliveryAsync.thy ===== *)
theory DeliveryAsync
  imports Delivery
begin

text \<open>
  The worker of \<open>src/background.js\<close> with its \<open>await\<close>s interleaved. \<open>Delivery\<close> runs a
  call of \<open>sendDomainsToVPS\<close> from its first line to its last in one step; here a call is a
  coroutine that stops at each \<open>await\<close> and resumes when the awaited operation completes
  (event \<open>AResume i\<close>), while messages, timers and other calls run in between. The
  awaits of a call are the read of the configuration, the \<open>fetch\<close> of each protocol
  (with the read of the response body), the write of the protocol preference, and the
  read and the write of the \<open>sentDomains\<close> counter. Storage operations take effect in
  the order they are issued, so a read returns the value stored when it was issued and
  is recorded in the call's state then. \<open>testConnection\<close> stays one step.
\<close>

subsection \<open>Calls and state\<close>

datatype send_pc =
    SConfig vps_config bool    \<comment> \<open>\<open>await chrome.storage.local.get(['vpsIp', 'vpsPort', 'useHttps'])\<close>\<close>
  | SFetch bool "protocol list" \<comment> \<open>\<open>await fetch\<close> of the first protocol left; \<open>config.useHttps\<close>\<close>
  | SPrefSet protocol          \<comment> \<open>\<open>await chrome.storage.local.set({useHttps})\<close>\<close>
  | SCountGet nat              \<comment> \<open>\<open>await chrome.storage.local.get(['sentDomains'])\<close> and its value\<close>
  | SCountSet                  \<comment> \<open>\<open>await chrome.storage.local.set({sentDomains})\<close>\<close>

record async_state =
  ab :: bg_state
  calls :: "(nat \<times> js_string list \<times> send_pc) list"
  next_call :: nat

definition async_init :: async_state where
  "async_init = \<lparr>ab = bg_init, calls = [], next_call = 0\<rparr>"

datatype async_event =
    AEv bg_event   \<comment> \<open>a message, a timer expiry or the periodic sweep\<close>
  | AResume nat    \<comment> \<open>the operation call \<open>i\<close> awaits completes\<close>

definition set_call :: "nat \<Rightarrow> js_string list \<times> send_pc \<Rightarrow> async_state \<Rightarrow> async_state" where
  "set_call i v a = a\<lparr>calls := map (\<lambda>(j, w). if j = i then (j, v) else (j, w)) (calls a)\<rparr>"

definition end_call :: "nat \<Rightarrow> async_state \<Rightarrow> async_state" where
  "end_call i a = a\<lparr>calls := filter (\<lambda>(j, _). j \<noteq> i) (calls a)\<rparr>"

definition start_send :: "bg_env \<Rightarrow> js_string list \<Rightarrow> async_state \<Rightarrow> async_state" where
  \<comment> \<open>\<open>sendDomainsToVPS(domains)\<close> up to its first \<open>await\<close>\<close>
  "start_send env domains a =
     (if domains = [] then a
      else a\<lparr>calls := calls a @ [(next_call a, domains, SConfig (env_cfg env) (useHttps (ab a)))],
             next_call := Suc (next_call a)\<rparr>)"

definition success_end :: "bg_state \<Rightarrow> bg_state" where
  \<comment> \<open>after the last \<open>await\<close> of the success branch: backoff reset and hand-over of the queue\<close>
  "success_end s =
     (let s1 = s\<lparr>currentRetryDelay := INITIAL_RETRY_DELAY\<rparr>
      in if pendingDomains s1 \<noteq> [] then fst (set_timeout 500 (FlushTask (pendingDomains s1)) (s1\<lparr>pendingDomains := []\<rparr>))
         else s1)"

definition resume_call :: "bg_env \<Rightarrow> nat \<Rightarrow> async_state \<Rightarrow> async_state \<times> bg_effect list" where
  "resume_call env i a =
     (case map_of (calls a) i of
        None \<Rightarrow> (a, [])
      | Some (ds, SConfig cfg u) \<Rightarrow>
          (if \<not> configured cfg
           then (end_call i (a\<lparr>ab := (ab a)\<lparr>pendingDomains := js_set (pendingDomains (ab a) @ ds)\<rparr>\<rparr>), [])
           else (set_call i (ds, SFetch u protocols) a, []))
      | Some (ds, SFetch u []) \<Rightarrow> (end_call i a, [])
      | Some (ds, SFetch u (p # ps)) \<Rightarrow>
          (let r = env_post env p; post = [Post p ds r]; s = ab a in
           if fetch_ok r then
             (let s1 = s\<lparr>connectionStatus := \<lparr>connected = True, lastError = None, lastSuccess = Some (env_now env)\<rparr>\<rparr>
              in if (p = Https) \<noteq> u then (set_call i (ds, SPrefSet p) (a\<lparr>ab := s1\<lparr>useHttps := (p = Https)\<rparr>\<rparr>), post)
                 else (set_call i (ds, SCountGet (sentDomains s1)) (a\<lparr>ab := s1\<rparr>), post))
           else if ps \<noteq> [] then (set_call i (ds, SFetch u ps) a, post)
           else (let s' = send_failure ds s
                 in (end_call i (a\<lparr>ab := s'\<rparr>), post @ [NotifySendError (length (pendingDomains s'))])))
      | Some (ds, SPrefSet p) \<Rightarrow> (set_call i (ds, SCountGet (sentDomains (ab a))) a, [])
      | Some (ds, SCountGet n) \<Rightarrow>
          (set_call i (ds, SCountSet) (a\<lparr>ab := (ab a)\<lparr>sentDomains := n + length ds\<rparr>\<rparr>), [])
      | Some (ds, SCountSet) \<Rightarrow>
          (end_call i (a\<lparr>ab := success_end (ab a)\<rparr>), [NotifySendSuccess (length ds)]))"

definition a_retryPending :: "bg_env \<Rightarrow> async_state \<Rightarrow> async_state" where
  \<comment> \<open>\<open>retryPendingDomains\<close> up to its \<open>await sendDomainsToVPS(toSend)\<close>\<close>
  "a_retryPending env a =
     (if pendingDomains (ab a) = [] then a
      else start_send env (pendingDomains (ab a)) (a\<lparr>ab := (ab a)\<lparr>pendingDomains := []\<rparr>\<rparr>))"

definition a_fire :: "bg_env \<Rightarrow> nat \<Rightarrow> async_state \<Rightarrow> async_state" where
  "a_fire env h a =
     (case find (\<lambda>(h', _). h' = h) (timers (ab a)) of
        None \<Rightarrow> a
      | Some (_, _, task) \<Rightarrow>
          (let a1 = a\<lparr>ab := clear_timeout h (ab a)\<rparr> in
           case task of
             RetryTask \<Rightarrow> a_retryPending env a1
           | FlushTask xs \<Rightarrow> start_send env xs a1))"

fun async_step :: "bg_env \<Rightarrow> async_event \<Rightarrow> async_state \<Rightarrow> async_state \<times> bg_effect list" where
  "async_step env (AEv (SendToVps ds)) a = (start_send env ds a, [])"
| "async_step env (AEv RetryPendingMsg) a = (a_retryPending env a, [])"
| "async_step env (AEv ConfigUpdated) a = (let (s', out) = testConnection env (ab a) in (a\<lparr>ab := s'\<rparr>, out))"
| "async_step env (AEv GetConnectionStatus) a = (a, [StatusReply (connectionStatus (ab a))])"
| "async_step env (AEv (Fire h)) a = (a_fire env h a, [])"
| "async_step env (AEv PeriodicRetry) a = (if pendingDomains (ab a) \<noteq> [] then a_retryPending env a else a, [])"
| "async_step env (AResume i) a = resume_call env i a"

fun async_run :: "(bg_env \<times> async_event) list \<Rightarrow> async_state \<Rightarrow> async_state \<times> bg_effect list" where
  "async_run [] a = (a, [])"
| "async_run ((env, ev) # evs) a =
     (let (a1, o1) = async_step env ev a; (a2, o2) = async_run evs a1 in (a2, o1 @ o2))"

subsection \<open>One call alone\<close>

fun drive_call :: "nat \<Rightarrow> bg_env \<Rightarrow> nat \<Rightarrow> async_state \<Rightarrow> (async_state \<times> bg_effect list) option" where
  \<comment> \<open>resumes call \<open>i\<close> and nothing else, at most \<open>n\<close> times, until it has returned\<close>
  "drive_call 0 env i a = (if map_of (calls a) i = None then Some (a, []) else None)"
| "drive_call (Suc n) env i a =
     (if map_of (calls a) i = None then Some (a, [])
      else let (a1, o1) = resume_call env i a
           in map_option (\<lambda>(a2, o2). (a2, o1 @ o2)) (drive_call n env i a1))"

subsection \<open>Where the items are\<close>

fun in_flight :: "send_pc \<Rightarrow> bool" where
  \<comment> \<open>the call has not yet had a good answer for its batch\<close>
  "in_flight (SConfig _ _) = True"
| "in_flight (SFetch _ _) = True"
| "in_flight _ = False"

definition a_held :: "async_state \<Rightarrow> js_string set" where
  "a_held a = held (ab a) \<union> (\<Union>(i, ds, pc) \<in> set (calls a). if in_flight pc then set ds else {})"

fun a_submitted :: "async_event \<Rightarrow> js_string set" where
  "a_submitted (AEv ev) = submitted ev"
| "a_submitted (AResume i) = {}"

subsection \<open>The invariant\<close>

fun pc_ok :: "send_pc \<Rightarrow> bool" where
  \<comment> \<open>a call waiting on a \<open>fetch\<close> has a protocol left to try\<close>
"pc_ok (SFetch u ps) = (ps \<noteq> [])"
| "pc_ok _ = True"

definition a_inv :: "async_state \<Rightarrow> bool" where
  "a_inv a \<longleftrightarrow> bg_inv (ab a) \<and> distinct (map fst (calls a)) \<and> (\<forall>j \<in> set (map fst (calls a)). j < next_call a) \<and>
     (\<forall>(i, ds, pc) \<in> set (calls a). pc_ok pc)"

definition call_items :: "(nat \<times> js_string list \<times> send_pc) list \<Rightarrow> js_string set" where
  "call_items xs = (\<Union>(i, ds, pc) \<in> set xs. if in_flight pc then set ds else {})"

subsection \<open>Lemmas\<close>

lemma fresh_call_ops:
  assumes "i \<notin> set (map fst xs)"
  shows "map_of (xs @ [(i, v)]) i = Some v"
    and "map (\<lambda>(j, w). if j = i then (j, v') else (j, w)) (xs @ [(i, v)]) = xs @ [(i, v')]"
    and "filter (\<lambda>(j, _). j \<noteq> i) (xs @ [(i, v)]) = xs"
proof -
  have nm: "map_of xs i = None" using assms by (simp add: map_of_eq_None_iff)
  then show "map_of (xs @ [(i, v)]) i = Some v" by (simp add: map_add_def)
  have "map (\<lambda>(j, w). if j = i then (j, v') else (j, w)) xs = xs" using assms by (induction xs) auto
  then show "map (\<lambda>(j, w). if j = i then (j, v') else (j, w)) (xs @ [(i, v)]) = xs @ [(i, v')]" by simp
  have "filter (\<lambda>(j, _). j \<noteq> i) xs = xs" using assms by (induction xs) auto
  then show "filter (\<lambda>(j, _). j \<noteq> i) (xs @ [(i, v)]) = xs" by simp
qed

lemma useHttps_same: "useHttps s = b \<Longrightarrow> s\<lparr>useHttps := b\<rparr> = s"
  by (cases s) auto

lemmas async_defs = resume_call_def set_call_def end_call_def start_send_def success_end_def

lemma success_end_inv: "bg_inv s \<Longrightarrow> bg_inv (success_end s)"
  by (simp add: success_end_def Let_def bg_inv_fields set_timeout_inv)

lemma held_success_end: "held (success_end s) = held s"
  by (auto simp: held_def timer_items_def success_end_def set_timeout_def Let_def)

lemma map_fst_set_call: "map fst (calls (set_call i v a)) = map fst (calls a)"
proof -
  have "map fst (map (\<lambda>(j, w). if j = i then (j, v) else (j, w)) xs) = map fst xs"
    for xs :: "(nat \<times> js_string list \<times> send_pc) list" by (induction xs) auto
  then show ?thesis by (simp add: set_call_def)
qed

lemma set_call_fields [simp]: "ab (set_call i v a) = ab a" "next_call (set_call i v a) = next_call a"
  by (simp_all add: set_call_def)

lemma set_set_call: "x \<in> set (calls (set_call i v a)) \<Longrightarrow> x = (i, v) \<or> x \<in> set (calls a)"
  by (auto simp: set_call_def split: if_splits)

lemma a_inv_set_call:
  assumes "a_inv a" and "bg_inv s" and "pc_ok (snd v)"
  shows "a_inv (set_call i v (a\<lparr>ab := s\<rparr>))"
proof -
  have "\<forall>(j, ds, pc) \<in> set (calls (set_call i v (a\<lparr>ab := s\<rparr>))). pc_ok pc"
  proof
    fix x assume "x \<in> set (calls (set_call i v (a\<lparr>ab := s\<rparr>)))"
    then have "x = (i, v) \<or> x \<in> set (calls a)" using set_set_call by fastforce
    with assms(1,3) show "case x of (j, ds, pc) \<Rightarrow> pc_ok pc" by (auto simp: a_inv_def)
  qed
  with assms(1,2) show ?thesis by (simp add: a_inv_def map_fst_set_call)
qed

lemma a_inv_end_call: "a_inv a \<Longrightarrow> bg_inv s \<Longrightarrow> a_inv (end_call i (a\<lparr>ab := s\<rparr>))"
  by (fastforce simp: a_inv_def end_call_def distinct_map_filter)

lemma a_inv_start: "a_inv a \<Longrightarrow> bg_inv s \<Longrightarrow> a_inv (start_send env ds (a\<lparr>ab := s\<rparr>))"
  by (auto simp: a_inv_def start_send_def)

lemma a_inv_resume: "a_inv a \<Longrightarrow> a_inv (fst (resume_call env i a))"
proof -
  assume inv: "a_inv a"
  then have b: "bg_inv (ab a)" by (simp add: a_inv_def)
  have sc: "a_inv (set_call i v (a\<lparr>ab := s\<rparr>))" if "bg_inv s" "pc_ok (snd v)" for v s
    using a_inv_set_call [OF inv that] .
  have ec: "a_inv (end_call i (a\<lparr>ab := s\<rparr>))" if "bg_inv s" for s using a_inv_end_call [OF inv that] .
  have sc0: "a_inv (set_call i v a)" if "pc_ok (snd v)" for v using sc [OF b that] by simp
  have ec0: "a_inv (end_call i a)" using ec [OF b] by simp
  show ?thesis
    using inv b sc ec sc0 ec0
    by (auto simp: resume_call_def Let_def bg_inv_fields send_failure_inv success_end_inv protocols_def
             split: option.splits send_pc.splits list.splits)
qed

lemma a_held_eq: "a_held a = held (ab a) \<union> call_items (calls a)"
  by (simp add: a_held_def call_items_def)

lemma call_items_append [simp]: "call_items (xs @ ys) = call_items xs \<union> call_items ys"
  by (auto simp: call_items_def)

lemma call_items_filter_sub: "call_items (filter P xs) \<subseteq> call_items xs"
  by (auto simp: call_items_def)

lemma set_key_split:
  "distinct (map fst xs) \<Longrightarrow> map_of xs i = Some w \<Longrightarrow> set xs = insert (i, w) (set (filter (\<lambda>(j, _). j \<noteq> i) xs))"
  by (induction xs) (auto simp: rev_image_eqI split: if_splits)

lemma set_key_update:
  "distinct (map fst xs) \<Longrightarrow> map_of xs i = Some w \<Longrightarrow>
   set (map (\<lambda>(j, w). if j = i then (j, v) else (j, w)) xs) = insert (i, v) (set (filter (\<lambda>(j, _). j \<noteq> i) xs))"
  by (induction xs) (auto simp: rev_image_eqI split: if_splits)

lemma call_items_split:
  assumes "distinct (map fst xs)" and "map_of xs i = Some (ds, pc)"
  shows "call_items xs = call_items (filter (\<lambda>(j, _). j \<noteq> i) xs) \<union> (if in_flight pc then set ds else {})"
  unfolding call_items_def by (subst set_key_split [OF assms]) auto

lemma call_items_update:
  assumes "distinct (map fst xs)" and "map_of xs i = Some w"
  shows "call_items (map (\<lambda>(j, w). if j = i then (j, v) else (j, w)) xs) =
         call_items (filter (\<lambda>(j, _). j \<noteq> i) xs) \<union> (if in_flight (snd v) then set (fst v) else {})"
  unfolding call_items_def by (subst set_key_update [OF assms]) (cases v, auto)

lemma resume_call_keeps:
  assumes inv: "a_inv a" and st: "resume_call env i a = (a', out)"
  shows "a_held a \<subseteq> a_held a' \<union> (\<Union>x\<in>set out. accepted x)"
proof (cases "map_of (calls a) i")
  case None
  with st show ?thesis by (simp add: resume_call_def)
next
  case (Some w)
  obtain ds pc where w: "w = (ds, pc)" by (cases w)
  have b: "bg_inv (ab a)" and d: "distinct (map fst (calls a))" using inv by (simp_all add: a_inv_def)
  from inv Some w have pok: "pc_ok pc"
    by (auto simp: a_inv_def dest!: map_of_SomeD)
  let ?R = "call_items (filter (\<lambda>(j, _). j \<noteq> i) (calls a))"
  have split: "call_items (calls a) = ?R \<union> (if in_flight pc then set ds else {})"
    using call_items_split [OF d] Some w by simp
  have upd: "call_items (calls (set_call i v a')) = ?R \<union> (if in_flight (snd v) then set (fst v) else {})"
    if "calls a' = calls a" for v a'
    using call_items_update [OF d Some, of v] that by (simp add: set_call_def)
  have endc: "call_items (calls (end_call i a')) = ?R" if "calls a' = calls a" for a'
    using that by (simp add: end_call_def)
  show ?thesis
  proof (cases pc)
    case (SConfig cfg u)
    show ?thesis
    proof (cases "configured cfg")
      case False
      with st Some w SConfig have "a' = end_call i (a\<lparr>ab := (ab a)\<lparr>pendingDomains := js_set (pendingDomains (ab a) @ ds)\<rparr>\<rparr>)"
        and "out = []" by (simp_all add: resume_call_def)
      with split endc [of "a\<lparr>ab := (ab a)\<lparr>pendingDomains := js_set (pendingDomains (ab a) @ ds)\<rparr>\<rparr>"] SConfig
      show ?thesis by (auto simp: a_held_eq held_def timer_items_def end_call_def)
    next
      case True
      with st Some w SConfig have "a' = set_call i (ds, SFetch u protocols) a" and "out = []"
        by (simp_all add: resume_call_def)
      with split upd [of a "(ds, SFetch u protocols)"] SConfig show ?thesis by (auto simp: a_held_eq)
    qed
  next
    case (SFetch u ps)
    with pok obtain p ps' where ps: "ps = p # ps'" by (cases ps) auto
    let ?r = "env_post env p"
    show ?thesis
    proof (cases "fetch_ok ?r")
      case True
      then have acc: "set ds \<subseteq> (\<Union>x\<in>set out. accepted x)"
        using st Some w SFetch ps by (auto simp: resume_call_def Let_def split: if_splits)
      have "call_items (calls a') = ?R"
        using st Some w SFetch ps True upd by (auto simp: resume_call_def Let_def split: if_splits)
      moreover have "held (ab a') = held (ab a)"
        using st Some w SFetch ps True by (auto simp: resume_call_def Let_def set_call_def split: if_splits)
      ultimately show ?thesis using split acc SFetch by (auto simp: a_held_eq)
    next
      case False
      show ?thesis
      proof (cases "ps' = []")
        case nil: True
        with st Some w SFetch ps False have "a' = end_call i (a\<lparr>ab := send_failure ds (ab a)\<rparr>)"
          by (simp add: resume_call_def Let_def)
        with split endc [of "a\<lparr>ab := send_failure ds (ab a)\<rparr>"] SFetch held_send_failure [OF b, of ds]
        show ?thesis by (auto simp: a_held_eq end_call_def)
      next
        case cons: False
        with st Some w SFetch ps False have "a' = set_call i (ds, SFetch u ps') a"
          by (simp add: resume_call_def Let_def)
        with split upd [of a "(ds, SFetch u ps')"] SFetch show ?thesis by (auto simp: a_held_eq)
      qed
    qed
  next
    case (SPrefSet p)
    with st Some w have "a' = set_call i (ds, SCountGet (sentDomains (ab a))) a" by (simp add: resume_call_def)
    with split upd [of a "(ds, SCountGet (sentDomains (ab a)))"] SPrefSet show ?thesis by (auto simp: a_held_eq)
  next
    case (SCountGet n)
    with st Some w have "a' = set_call i (ds, SCountSet) (a\<lparr>ab := (ab a)\<lparr>sentDomains := n + length ds\<rparr>\<rparr>)"
      by (simp add: resume_call_def)
    with split upd [of "a\<lparr>ab := (ab a)\<lparr>sentDomains := n + length ds\<rparr>\<rparr>" "(ds, SCountSet)"] SCountGet
    show ?thesis by (auto simp: a_held_eq)
  next
    case SCountSet
    with st Some w have "a' = end_call i (a\<lparr>ab := success_end (ab a)\<rparr>)" by (simp add: resume_call_def)
    with split endc [of "a\<lparr>ab := success_end (ab a)\<rparr>"] SCountSet held_success_end [of "ab a"]
    show ?thesis by (auto simp: a_held_eq end_call_def)
  qed
qed

lemma a_inv_ab: "a_inv a \<Longrightarrow> bg_inv s \<Longrightarrow> a_inv (a\<lparr>ab := s\<rparr>)"
  by (simp add: a_inv_def)

lemma a_held_start: "a_held (start_send env ds a) = a_held a \<union> set ds"
  by (auto simp: start_send_def a_held_eq call_items_def)

lemma a_held_retry: "a_held (a_retryPending env a) = a_held a"
  unfolding a_retryPending_def by (simp add: a_held_start) (auto simp: a_held_eq held_def timer_items_def)

lemma a_inv_retry: "a_inv a \<Longrightarrow> a_inv (a_retryPending env a)"
proof -
  assume inv: "a_inv a"
  then have "bg_inv ((ab a)\<lparr>pendingDomains := []\<rparr>)" by (simp add: a_inv_def bg_inv_fields)
  with inv show ?thesis unfolding a_retryPending_def using a_inv_start by simp
qed

lemma a_fire_facts:
  assumes inv: "a_inv a"
  shows "a_inv (a_fire env h a) \<and> a_held a \<subseteq> a_held (a_fire env h a)"
proof (cases "find (\<lambda>(h', _). h' = h) (timers (ab a))")
  case None
  with inv show ?thesis by (simp add: a_fire_def)
next
  case (Some tm)
  obtain h' d t where tm: "tm = (h', d, t)" by (cases tm) auto
  let ?a1 = "a\<lparr>ab := clear_timeout h (ab a)\<rparr>"
  from Some tm have "h' = h" by (auto dest: find_Some_iff [THEN iffD1])
  with Some tm inv have b1: "bg_inv (clear_timeout h (ab a))"
    using clear_timeout_fire_inv [of "ab a" h d t] by (simp add: a_inv_def)
  have inv1: "a_inv ?a1" by (rule a_inv_ab [OF inv b1])
  from inv have "distinct (map fst (timers (ab a)))" by (simp add: a_inv_def bg_inv_def)
  with Some have "set (timers (ab a)) \<subseteq> insert tm (set (timers (clear_timeout h (ab a))))"
    using find_handle_unique [OF Some] by (simp add: clear_timeout_def)
  with tm have held1: "a_held a \<subseteq> a_held ?a1 \<union> task_items t"
    by (force simp: a_held_eq held_def timer_items_def clear_timeout_def)
  show ?thesis
  proof (cases t)
    case RetryTask
    with Some tm have "a_fire env h a = a_retryPending env ?a1" by (simp add: a_fire_def)
    with held1 inv1 RetryTask show ?thesis by (simp add: a_held_retry a_inv_retry)
  next
    case (FlushTask xs)
    with Some tm have "a_fire env h a = start_send env xs ?a1" by (simp add: a_fire_def)
    with held1 FlushTask a_inv_start [OF inv b1, of env xs] show ?thesis
      by (auto simp: a_held_start)
  qed
qed

lemma a_inv_start0: "a_inv a \<Longrightarrow> a_inv (start_send env ds a)"
  using a_inv_start [of a "ab a"] by (simp add: a_inv_def)

lemma async_step_inv: "a_inv a \<Longrightarrow> a_inv (fst (async_step env ev a))"
proof -
  assume inv: "a_inv a"
  then have b: "bg_inv (ab a)" by (simp add: a_inv_def)
  show ?thesis
  proof (cases ev)
    case (AEv bev)
    show ?thesis
    proof (cases bev)
      case ConfigUpdated
      with AEv show ?thesis using a_inv_ab [OF inv testConnection_inv [OF b, of env]]
        by (simp add: split_def Let_def)
    next
      case (Fire h)
      with AEv show ?thesis using a_fire_facts [OF inv] by simp
    qed (use AEv inv in \<open>simp_all add: a_inv_start0 a_inv_retry\<close>)
  next
    case (AResume i)
    with inv show ?thesis by (simp add: a_inv_resume)
  qed
qed

lemma async_step_keeps:
  assumes inv: "a_inv a" and st: "async_step env ev a = (a', out)"
  shows "a_held a \<union> a_submitted ev \<subseteq> a_held a' \<union> (\<Union>x\<in>set out. accepted x)"
proof (cases ev)
  case (AEv bev)
  show ?thesis
  proof (cases bev)
    case (SendToVps ds)
    with AEv st show ?thesis by (auto simp: a_held_start)
  next
    case RetryPendingMsg
    with AEv st show ?thesis by (auto simp: a_held_retry)
  next
    case ConfigUpdated
    with AEv st have "a' = a\<lparr>ab := fst (testConnection env (ab a))\<rparr>" by (auto simp: split_def Let_def)
    then have "a_held a' = a_held a" by (simp add: a_held_eq)
    with AEv ConfigUpdated show ?thesis by simp
  next
    case GetConnectionStatus
    with AEv st show ?thesis by auto
  next
    case (Fire h)
    with AEv st show ?thesis using a_fire_facts [OF inv, of env h] by auto
  next
    case PeriodicRetry
    with AEv st show ?thesis by (cases "pendingDomains (ab a) = []") (auto simp: a_held_retry)
  qed
next
  case (AResume i)
  with inv st show ?thesis using resume_call_keeps by simp
qed

lemma async_run_inv: "a_inv a \<Longrightarrow> a_inv (fst (async_run evs a))"
  by (induction evs arbitrary: a) (auto simp: split_def Let_def async_step_inv)

lemma async_run_keeps:
  "a_inv a \<Longrightarrow> a_held a \<union> (\<Union>e\<in>set evs. a_submitted (snd e))
     \<subseteq> a_held (fst (async_run evs a)) \<union> (\<Union>x\<in>set (snd (async_run evs a)). accepted x)"
proof (induction evs arbitrary: a)
  case Nil
  then show ?case by simp
next
  case (Cons e evs)
  obtain env ev where e: "e = (env, ev)" by (cases e)
  obtain a1 out1 where st: "async_step env ev a = (a1, out1)" by fastforce
  have step: "a_held a \<union> a_submitted ev \<subseteq> a_held a1 \<union> (\<Union>x\<in>set out1. accepted x)"
    using Cons.prems st by (rule async_step_keeps)
  have "a_inv a1" using async_step_inv [OF Cons.prems, of env ev] st by simp
  then have rest: "a_held a1 \<union> (\<Union>e\<in>set evs. a_submitted (snd e))
     \<subseteq> a_held (fst (async_run evs a1)) \<union> (\<Union>x\<in>set (snd (async_run evs a1)). accepted x)"
    by (rule Cons.IH)
  show ?case
    using step rest e st by (auto simp: split_def Let_def)
qed

lemma a_inv_init: "a_inv async_init"
  by (simp add: a_inv_def async_init_def bg_inv_init)

subsection \<open>Properties\<close>

text \<open>
  C3. Refinement of the atomic model: a call of \<open>sendDomainsToVPS\<close> started with a fresh
  call number and a non-empty batch, then resumed alone, returns after at most six
  resumptions, with the worker's state and the effects that the one-step
  \<open>Delivery.sendDomainsToVPS\<close> gives from the same state, and the other calls as they were.
\<close>

theorem async_send_refines:
  assumes fresh: "next_call a \<notin> set (map fst (calls a))" and ne: "ds \<noteq> []"
  shows "\<exists>a'. drive_call 6 env (next_call a) (start_send env ds a) = Some (a', snd (sendDomainsToVPS env ds (ab a))) \<and>
              ab a' = fst (sendDomainsToVPS env ds (ab a)) \<and> calls a' = calls a"
proof -
  have nm: "map_of (calls a) (next_call a) = None" using fresh by (simp add: map_of_eq_None_iff)
  have six: "(6::nat) = Suc (Suc (Suc (Suc (Suc (Suc 0)))))" by simp
  show ?thesis
  unfolding six
  using fresh_call_ops(2,3) [OF fresh] nm ne
  by (cases "configured (env_cfg env)"; cases "fetch_ok (env_post env Http)"; cases "fetch_ok (env_post env Https)";
      cases "useHttps (ab a)")
     (simp_all add: async_defs sendDomainsToVPS_def try_protocols_two send_success_def send_failure_def
                    protocols_def Let_def map_add_def useHttps_same)
qed

text \<open>
  C2. No item is lost when calls interleave: along any sequence of messages, timer
  expiries, sweeps and completions of awaited operations, in any order, every item handed
  to the worker is afterwards pending, in the batch of a flush timer, in the batch of a call
  that has not yet had a good answer, or in a POST counted as delivered.
\<close>

theorem async_no_loss:
  "(\<Union>e\<in>set evs. a_submitted (snd e))
     \<subseteq> a_held (fst (async_run evs async_init)) \<union> (\<Union>x\<in>set (snd (async_run evs async_init)). accepted x)"
  using async_run_keeps [OF a_inv_init, of evs] by blast

text \<open>
  C19. With interleaved calls the backoff delay still stays between 2000 and 30000 ms and
  at most one retry timer is armed.
\<close>

theorem async_backoff_safe:
  "INITIAL_RETRY_DELAY \<le> currentRetryDelay (ab (fst (async_run evs async_init))) \<and>
   currentRetryDelay (ab (fst (async_run evs async_init))) \<le> MAX_RETRY_DELAY \<and>
   length (filter (\<lambda>(h, d, t). t = RetryTask) (timers (ab (fst (async_run evs async_init))))) \<le> 1"
proof -
  have "bg_inv (ab (fst (async_run evs async_init)))"
    using async_run_inv [OF a_inv_init] by (simp add: a_inv_def)
  then show ?thesis using bg_inv_one_retry_timer by (simp add: bg_inv_def)
qed

end
