(* ===== verification/Schema.thy ===== *)
theory Schema
  imports Prelude
begin

text \<open>
  The durable key-value store \<open>chrome.storage.local\<close> that the popup, the content script
  and the worker share (the schema of the specification's section 6). Every key may be
  absent (\<open>undefined\<close>), so each field is an \<open>option\<close>. The code reads the keys with
  JavaScript's truthiness (\<open>config.vpsIp && config.vpsPort\<close>, \<open>config.maxPages || 50\<close>),
  written out here as \<open>truthy_str\<close>, \<open>truthy_num\<close>, \<open>truthy_bool\<close> and \<open>js_or_num\<close>.
  Writes are \<open>set\<close> calls of a few keys at a time; a failing \<open>set\<close> (quota) is not
  modelled.
\<close>

record storage =
  k_vpsIp :: "js_string option"
  k_vpsPort :: "int option"
  k_isCollecting :: "bool option"
  k_autoExtract :: "bool option"
  k_collectFullUrl :: "bool option"
  k_domains :: "js_string list option"
  k_sentDomains :: "int option"
  k_useHttps :: "bool option"
  k_autoPagination :: "bool option"
  k_maxPages :: "int option"
  k_paginationDelay :: "int option"

definition storage_empty :: storage where
  "storage_empty = \<lparr>k_vpsIp = None, k_vpsPort = None, k_isCollecting = None, k_autoExtract = None,
     k_collectFullUrl = None, k_domains = None, k_sentDomains = None, k_useHttps = None,
     k_autoPagination = None, k_maxPages = None, k_paginationDelay = None\<rparr>"

definition onInstalled :: "storage \<Rightarrow> storage" where
  \<comment> \<open>\<open>chrome.runtime.onInstalled\<close> in the worker: the initial values of five keys\<close>
  "onInstalled st = st\<lparr>k_domains := Some [], k_sentDomains := Some 0, k_autoExtract := Some False,
                        k_useHttps := Some False, k_isCollecting := Some False\<rparr>"

definition truthy_str :: "js_string option \<Rightarrow> bool" where
  "truthy_str v = (case v of Some s \<Rightarrow> s \<noteq> [] | None \<Rightarrow> False)"

definition truthy_num :: "int option \<Rightarrow> bool" where
  "truthy_num v = (case v of Some n \<Rightarrow> n \<noteq> 0 | None \<Rightarrow> False)"

definition truthy_bool :: "bool option \<Rightarrow> bool" where
  "truthy_bool v = (v = Some True)"

definition list_or_nil :: "'a list option \<Rightarrow> 'a list" where
  \<comment> \<open>\<open>config.domains || []\<close>: an array, even an empty one, is truthy\<close>
  "list_or_nil v = (case v of Some xs \<Rightarrow> xs | None \<Rightarrow> [])"

lemmas truthy_defs = truthy_str_def truthy_num_def truthy_bool_def list_or_nil_def js_or_num_def

end
