(* ===== verification/Popup.thy ===== *)
theory Popup
  imports Schema Validator Delivery
begin

text \<open>
  The popup (\<open>src/popup.js\<close>): the configuration form, the start and stop buttons, the
  pagination controls and the counters. Its state is the part of the page the script
  writes (\<open>popup_view\<close>: input values, labels, which buttons and panels are shown, the
  current notification) together with the storage it reads and writes. Each event
  listener is one function from that state to the new state and the messages it sends
  (\<open>popup_out\<close>). A listener that awaits a reply (\<open>chrome.runtime.sendMessage\<close>,
  \<open>chrome.tabs.sendMessage\<close> with a callback) is split in two: the click, and the
  reply event that runs the callback. Purely cosmetic effects (focus, the 500 ms pulse of
  the status dot, the removal of a notification after 3 s) are not modelled. The HTML
  escaping of the domain list is the browser's and round-trips, so the list holds the
  item texts.
\<close>

subsection \<open>Host name and port validation\<close>

definition is_alnum :: "char \<Rightarrow> bool" where
  \<comment> \<open>\<open>[a-zA-Z0-9]\<close>\<close>
  "is_alnum c \<longleftrightarrow> is_az c \<or> is_upper c \<or> is_09 c"

definition ip_pattern :: "js_string \<Rightarrow> bool" where
  \<comment> \<open>\<open>/^(\d{1,3}\.){3}\d{1,3}$/\<close>: four dot-separated runs of one to three digits\<close>
  "ip_pattern s \<longleftrightarrow>
     (let ps = split_char (CHR ''.'') s in
      length ps = 4 \<and> list_all (\<lambda>p. 1 \<le> length p \<and> length p \<le> 3 \<and> list_all is_09 p) ps)"

definition host_label :: "js_string \<Rightarrow> bool" where
  \<comment> \<open>\<open>[a-zA-Z0-9]([a-zA-Z0-9-]*[a-zA-Z0-9])?\<close>\<close>
  "host_label l \<longleftrightarrow>
     l \<noteq> [] \<and> is_alnum (hd l) \<and> is_alnum (last l) \<and> list_all (\<lambda>c. is_alnum c \<or> c = CHR ''-'') l"

definition hostname_pattern :: "js_string \<Rightarrow> bool" where
  \<comment> \<open>the anchored \<open>hostnamePattern\<close>: every dot-separated label is a \<open>host_label\<close>\<close>
  "hostname_pattern s \<longleftrightarrow> list_all host_label (split_char (CHR ''.'') s)"

definition octet_ok :: "js_string \<Rightarrow> bool" where
  \<comment> \<open>\<open>parseInt(p) <= 255\<close>; \<open>NaN <= 255\<close> is false\<close>
  "octet_ok p = (case js_parseInt p of Some n \<Rightarrow> n \<le> 255 | None \<Rightarrow> False)"

definition isValidHostname :: "js_string \<Rightarrow> bool" where
  "isValidHostname str =
     (if str = [] then False
      else if ip_pattern str then list_all octet_ok (split_char (CHR ''.'') str)
      else hostname_pattern str)"

subsection \<open>State\<close>

record popup_view =
  ip_value :: js_string
  port_value :: js_string
  full_url_checked :: bool
  mode_label :: js_string
  collecting_shown :: bool  \<comment> \<open>\<open>showCollectingState\<close> (stop button) or \<open>showStoppedState\<close>\<close>
  status_connected :: bool
  status_text :: js_string
  connection_info :: js_string
  domains_count :: nat
  sent_count :: int
  domain_items :: "js_string list"  \<comment> \<open>empty: the \<open>No domains collected yet\<close> message\<close>
  max_pages_value :: js_string
  page_delay_value :: js_string
  pagination_shown :: bool  \<comment> \<open>\<open>showPaginationRunning\<close> or \<open>showPaginationStopped\<close>\<close>
  current_page_text :: js_string
  max_page_text :: js_string
  save_label :: js_string
  save_disabled :: bool
  notification :: "(js_string \<times> js_string) option"  \<comment> \<open>message and type\<close>
  isInitialized :: bool
  isPaginationActive :: bool

record popup_state =
  pv :: popup_view
  pstore :: storage

datatype popup_msg =
    ConfigUpdatedMsg js_string int
  | AutoExtractChangedMsg bool
  | CollectModeChangedMsg bool
  | StartPaginationMsg int int
  | StopPaginationMsg

datatype popup_out =
    ToRuntime popup_msg   \<comment> \<open>\<open>chrome.runtime.sendMessage\<close>\<close>
  | ToTab popup_msg       \<comment> \<open>\<open>chrome.tabs.sendMessage\<close> to the active tab\<close>
  | ToClipboard js_string

datatype config_reply =
    ReplyLastError              \<comment> \<open>\<open>chrome.runtime.lastError\<close> is set\<close>
  | ReplyResult "protocol option"  \<comment> \<open>the worker's \<open>testConnection\<close> result\<close>

datatype popup_in =
    StatsUpdated | DomainsExtractedIn | VpsSendSuccess | VpsSendError js_string
  | PaginationProgress int int | PaginationComplete int | OtherIn

subsection \<open>Rendering helpers\<close>

definition showNotification :: "js_string \<Rightarrow> js_string \<Rightarrow> popup_view \<Rightarrow> popup_view" where
  \<comment> \<open>replaces the notification shown\<close>
  "showNotification msg ty v = v\<lparr>notification := Some (msg, ty)\<rparr>"

definition showCollectingState :: "popup_view \<Rightarrow> popup_view" where
  "showCollectingState v = v\<lparr>collecting_shown := True\<rparr>"

definition showStoppedState :: "popup_view \<Rightarrow> popup_view" where
  "showStoppedState v = v\<lparr>collecting_shown := False\<rparr>"

definition showPaginationRunning :: "int \<Rightarrow> popup_view \<Rightarrow> popup_view" where
  "showPaginationRunning maxPages v = v\<lparr>pagination_shown := True, max_page_text := js_show_int maxPages\<rparr>"

definition showPaginationStopped :: "popup_view \<Rightarrow> popup_view" where
  "showPaginationStopped v = v\<lparr>pagination_shown := False\<rparr>"

definition updateStatus :: "js_string option \<Rightarrow> int option \<Rightarrow> bool \<Rightarrow> popup_view \<Rightarrow> popup_view" where
  "updateStatus ip port https v =
     (case (ip, port) of
        (Some i, Some p) \<Rightarrow>
          if i \<noteq> [] \<and> p \<noteq> 0 then
            v\<lparr>status_connected := True, status_text := ''Configured'',
              connection_info := (if https then ''https'' else ''http'') @ ''://'' @ i @ '':'' @ js_show_int p\<rparr>
          else v\<lparr>status_connected := False, status_text := ''Not configured'',
                  connection_info := ''Enter VPS IP and save''\<rparr>
      | _ \<Rightarrow> v\<lparr>status_connected := False, status_text := ''Not configured'',
               connection_info := ''Enter VPS IP and save''\<rparr>)"

definition updateStats :: "js_string list \<Rightarrow> int \<Rightarrow> popup_view \<Rightarrow> popup_view" where
  \<comment> \<open>\<open>sent || 0\<close> is \<open>sent\<close> for a number\<close>
  "updateStats domains sent v = v\<lparr>domains_count := length domains, sent_count := sent\<rparr>"

definition updateDomainsList :: "js_string list \<Rightarrow> popup_view \<Rightarrow> popup_view" where
  \<comment> \<open>\<open>domains.slice(-30).reverse()\<close>\<close>
  "updateDomainsList domains v =
     v\<lparr>domain_items := (if domains = [] then [] else rev (drop (length domains - 30) domains))\<rparr>"

definition refreshStats :: "storage \<Rightarrow> popup_view \<Rightarrow> popup_view" where
  "refreshStats data v =
     (let ds = list_or_nil (k_domains data);
          v1 = updateStatus (k_vpsIp data) (k_vpsPort data) (truthy_bool (k_useHttps data))
                 (updateDomainsList ds (updateStats ds (js_or_num (k_sentDomains data) 0) v))
      in if truthy_str (k_vpsIp data) \<and> truthy_num (k_vpsPort data) then
           (if truthy_bool (k_isCollecting data) \<or> truthy_bool (k_autoExtract data)
            then showCollectingState v1 else showStoppedState v1)
         else v1)"

definition popup_load :: "storage \<Rightarrow> popup_view \<Rightarrow> popup_view" where
  \<comment> \<open>the \<open>DOMContentLoaded\<close> listener up to \<open>isInitialized = true\<close>\<close>
  "popup_load config v =
     (let v1 = (case k_vpsIp config of Some ip \<Rightarrow> if ip \<noteq> [] then v\<lparr>ip_value := ip\<rparr> else v | None \<Rightarrow> v);
          v2 = (case k_vpsPort config of
                  Some p \<Rightarrow> if p \<noteq> 0 then v1\<lparr>port_value := js_show_int p\<rparr> else v1\<lparr>port_value := ''9876''\<rparr>
                | None \<Rightarrow> v1\<lparr>port_value := ''9876''\<rparr>);
          v3 = (if truthy_bool (k_collectFullUrl config)
                then v2\<lparr>full_url_checked := True, mode_label := ''Full URL''\<rparr>
                else v2\<lparr>full_url_checked := False, mode_label := ''Domain only''\<rparr>);
          ds = list_or_nil (k_domains config);
          v4 = updateDomainsList ds (updateStats ds (js_or_num (k_sentDomains config) 0)
                 (updateStatus (k_vpsIp config) (k_vpsPort config) (truthy_bool (k_useHttps config)) v3));
          v5 = (if truthy_str (k_vpsIp config) \<and> truthy_num (k_vpsPort config) \<and>
                   (truthy_bool (k_isCollecting config) \<or> truthy_bool (k_autoExtract config))
                then showCollectingState v4 else showStoppedState v4)
      in v5\<lparr>isInitialized := True\<rparr>)"

subsection \<open>Event listeners\<close>

definition onModeToggle :: "bool \<Rightarrow> popup_state \<Rightarrow> popup_state \<times> popup_out list" where
  \<comment> \<open>the \<open>change\<close> listener of the mode switch; \<open>isFullUrl\<close> is its new state\<close>
  "onModeToggle isFullUrl ps =
     (let v = (pv ps)\<lparr>full_url_checked := isFullUrl,
                      mode_label := (if isFullUrl then ''Full URL'' else ''Domain only'')\<rparr>
      in (ps\<lparr>pstore := (pstore ps)\<lparr>k_collectFullUrl := Some isFullUrl\<rparr>,
             pv := showNotification (if isFullUrl then ''Collecting full URLs'' else ''Collecting domains only'')
                     ''success'' v\<rparr>,
          [ToRuntime (CollectModeChangedMsg isFullUrl)]))"

definition onStartPagination :: "js_string option \<Rightarrow> popup_state \<Rightarrow> popup_state \<times> popup_out list" where
  \<comment> \<open>\<open>tab_url\<close>: the active tab's URL, \<open>None\<close> when there is no tab or no URL\<close>
  "onStartPagination tab_url ps =
     (let maxPages = js_or_num (js_parseInt (max_pages_value (pv ps))) 50;
          delay = js_or_num (js_parseInt (page_delay_value (pv ps))) 2000;
          ps1 = ps\<lparr>pstore := (pstore ps)\<lparr>k_maxPages := Some maxPages, k_paginationDelay := Some delay\<rparr>\<rparr>
      in if truthy_str tab_url \<and> js_includes (case tab_url of Some u \<Rightarrow> u | None \<Rightarrow> []) ''google.''
         then (ps1, [ToTab (StartPaginationMsg maxPages delay)])
         else (ps1\<lparr>pv := showNotification ''Navigate to Google search first'' ''error'' (pv ps1)\<rparr>, []))"

definition onStartPaginationReply :: "int \<Rightarrow> bool option \<Rightarrow> popup_state \<Rightarrow> popup_state" where
  \<comment> \<open>the callback: \<open>None\<close> when \<open>lastError\<close> is set, else \<open>response.success\<close>\<close>
  "onStartPaginationReply maxPages resp ps =
     (case resp of
        None \<Rightarrow> ps\<lparr>pv := showNotification ''Reload the Google page first'' ''error'' (pv ps)\<rparr>
      | Some True \<Rightarrow>
          ps\<lparr>pv := showNotification (''Pagination started - '' @ js_show_int maxPages @ '' pages'') ''success''
                     (showPaginationRunning maxPages ((pv ps)\<lparr>isPaginationActive := True\<rparr>))\<rparr>
      | Some False \<Rightarrow> ps)"

definition onStopPagination :: "bool \<Rightarrow> popup_state \<Rightarrow> popup_out list" where
  \<comment> \<open>\<open>has_tab\<close>: \<open>tab && tab.id\<close>\<close>
  "onStopPagination has_tab ps = (if has_tab then [ToTab StopPaginationMsg] else [])"

definition onStopPaginationReply :: "popup_state \<Rightarrow> popup_state" where
  "onStopPaginationReply ps =
     ps\<lparr>pv := showNotification ''Pagination stopped'' ''success''
                (showPaginationStopped ((pv ps)\<lparr>isPaginationActive := False\<rparr>))\<rparr>"

definition onSaveConfig :: "popup_state \<Rightarrow> popup_state \<times> popup_out list" where
  "onSaveConfig ps =
     (let vps_ip = js_trim (ip_value (pv ps));
          vps_port = js_or_num (js_parseInt (js_trim (port_value (pv ps)))) 9876
      in if vps_ip = [] then (ps\<lparr>pv := showNotification ''Enter VPS IP address'' ''error'' (pv ps)\<rparr>, [])
         else if \<not> isValidHostname vps_ip then
           (ps\<lparr>pv := showNotification ''Invalid IP or hostname'' ''error'' (pv ps)\<rparr>, [])
         else if vps_port < 1 \<or> 65535 < vps_port then
           (ps\<lparr>pv := showNotification ''Invalid port (1-65535)'' ''error'' (pv ps)\<rparr>, [])
         else
           (ps\<lparr>pv := (pv ps)\<lparr>save_label := ''Testing...'', save_disabled := True\<rparr>,
               pstore := (pstore ps)\<lparr>k_vpsIp := Some vps_ip, k_vpsPort := Some vps_port,
                                     k_isCollecting := Some True, k_autoExtract := Some True\<rparr>\<rparr>,
            [ToRuntime (ConfigUpdatedMsg vps_ip vps_port), ToRuntime (AutoExtractChangedMsg True)]))"

definition protocol_upper :: "protocol \<Rightarrow> js_string" where
  "protocol_upper p = (case p of Http \<Rightarrow> ''HTTP'' | Https \<Rightarrow> ''HTTPS'')"

definition onConfigReply :: "js_string \<Rightarrow> int \<Rightarrow> config_reply \<Rightarrow> popup_state \<Rightarrow> popup_state" where
  \<comment> \<open>the callback of \<open>CONFIG_UPDATED\<close>, closing over \<open>vpsIp\<close> and \<open>vpsPort\<close>\<close>
  "onConfigReply vps_ip vps_port r ps =
     (let v = (pv ps)\<lparr>save_label := ''Save & Start Collecting'', save_disabled := False\<rparr> in
      case r of
        ReplyLastError \<Rightarrow> ps\<lparr>pv := showNotification ''Extension error - try reloading'' ''error'' v\<rparr>
      | ReplyResult (Some p) \<Rightarrow>
          ps\<lparr>pv := showCollectingState (updateStatus (Some vps_ip) (Some vps_port) (p = Https)
                     (showNotification (''Connected via '' @ protocol_upper p @ ''!'') ''success'' v))\<rparr>
      | ReplyResult None \<Rightarrow>
          ps\<lparr>pv := showCollectingState (updateStatus (Some vps_ip) (Some vps_port) False
                     (showNotification ''Saved! VPS not reachable yet'' ''warning'' v))\<rparr>)"

definition onStopClick :: "popup_state \<Rightarrow> popup_state \<times> popup_out list" where
  "onStopClick ps =
     (ps\<lparr>pstore := (pstore ps)\<lparr>k_isCollecting := Some False, k_autoExtract := Some False\<rparr>,
         pv := showNotification ''Collection STOPPED'' ''success'' (showStoppedState (pv ps))\<rparr>,
      [ToRuntime (AutoExtractChangedMsg False)])"

definition onStartClick :: "popup_state \<Rightarrow> popup_state \<times> popup_out list" where
  "onStartClick ps =
     (let cfg = pstore ps in
      if \<not> truthy_str (k_vpsIp cfg) \<or> \<not> truthy_num (k_vpsPort cfg) then
        (ps\<lparr>pv := showNotification ''Configure VPS first'' ''error'' (pv ps)\<rparr>, [])
      else
        (ps\<lparr>pstore := cfg\<lparr>k_isCollecting := Some True, k_autoExtract := Some True\<rparr>,
            pv := showNotification ''Collection STARTED'' ''success'' (showCollectingState (pv ps))\<rparr>,
         [ToRuntime (AutoExtractChangedMsg True)]))"

definition onClearClick :: "bool \<Rightarrow> popup_state \<Rightarrow> popup_state" where
  \<comment> \<open>\<open>confirmed\<close>: the answer to \<open>confirm('Clear all collected domains?')\<close>\<close>
  "onClearClick confirmed ps =
     (if \<not> confirmed then ps
      else ps\<lparr>pstore := (pstore ps)\<lparr>k_domains := Some [], k_sentDomains := Some 0\<rparr>,
              pv := showNotification ''All domains cleared'' ''success'' (updateDomainsList [] (updateStats [] 0 (pv ps)))\<rparr>)"

definition onCopyClick :: "js_string \<Rightarrow> popup_state \<Rightarrow> popup_state \<times> popup_out list" where
  \<comment> \<open>a click on a \<open>domain-item\<close>; a failed clipboard write only logs\<close>
  "onCopyClick domain ps =
     (ps\<lparr>pv := showNotification (''Copied: '' @ domain) ''success'' (pv ps)\<rparr>, [ToClipboard domain])"

definition popup_on_message :: "popup_in \<Rightarrow> popup_state \<Rightarrow> popup_state" where
  \<comment> \<open>the \<open>chrome.runtime.onMessage\<close> listener\<close>
  "popup_on_message m ps =
     (case m of
        StatsUpdated \<Rightarrow> ps\<lparr>pv := refreshStats (pstore ps) (pv ps)\<rparr>
      | DomainsExtractedIn \<Rightarrow> ps\<lparr>pv := refreshStats (pstore ps) (pv ps)\<rparr>
      | VpsSendSuccess \<Rightarrow> ps\<lparr>pv := refreshStats (pstore ps) (pv ps)\<rparr>
      | VpsSendError e \<Rightarrow> ps\<lparr>pv := showNotification (''VPS Error: '' @ e) ''error'' (pv ps)\<rparr>
      | PaginationProgress cur mx \<Rightarrow> ps\<lparr>pv := (pv ps)\<lparr>current_page_text := js_show_int cur, max_page_text := js_show_int mx\<rparr>\<rparr>
      | PaginationComplete n \<Rightarrow>
          ps\<lparr>pv := refreshStats (pstore ps)
                    (showNotification (''Pagination complete - '' @ js_show_int n @ '' pages'') ''success''
                      (showPaginationStopped ((pv ps)\<lparr>isPaginationActive := False\<rparr>)))\<rparr>
      | OtherIn \<Rightarrow> ps)"

subsection \<open>Events\<close>

datatype storage_failure =
    LoadReadFails            \<comment> \<open>the \<open>storage.local.get\<close> of \<open>DOMContentLoaded\<close> rejects\<close>
  | ModeWriteFails bool      \<comment> \<open>the mode switch's \<open>set({collectFullUrl})\<close> rejects; its new state\<close>
  | PagSettingsWriteFails    \<comment> \<open>Start pagination's \<open>set({maxPages, paginationDelay})\<close> rejects\<close>
  | SaveWriteFails           \<comment> \<open>the save button's \<open>set\<close> rejects\<close>
  | StopWriteFails | StartReadFails | StartWriteFails
  | ClearWriteFails bool     \<comment> \<open>the clear button's \<open>set\<close> rejects; the answer to \<open>confirm\<close>\<close>
  | RefreshReadFails         \<comment> \<open>\<open>refreshStats\<close>' \<open>get\<close> rejects\<close>

datatype popup_event =
    Opened
  | TypeIp js_string | TypePort js_string | TypeMaxPages js_string | TypeDelay js_string
  | ModeToggled bool
  | StartPaginationClick "js_string option" | StartPaginationReply int "bool option"
  | StopPaginationClick bool | StopPaginationReply
  | SaveClick | ConfigReply js_string int config_reply
  | StopClick | StartClick | ClearClick bool | CopyClick js_string
  | RefreshTick  \<comment> \<open>the 2 s \<open>setInterval(refreshStats)\<close> and the initial refresh\<close>
  | Incoming popup_in
  | StorageRejected storage_failure  \<comment> \<open>a handler whose storage call rejects\<close>

definition onLoadRejected :: "popup_state \<Rightarrow> popup_state" where
  \<comment> \<open>the \<open>catch\<close> of \<open>DOMContentLoaded\<close> when its \<open>get\<close> rejects\<close>
  "onLoadRejected ps = ps\<lparr>pv := showNotification ''Error loading config'' ''error'' (pv ps)\<rparr>"

definition onModeToggleRejected :: "bool \<Rightarrow> popup_state \<Rightarrow> popup_state" where
  \<comment> \<open>the mode switch up to its \<open>set\<close>, which is awaited outside any \<open>try\<close>: the rejection is
      unhandled\<close>
  "onModeToggleRejected isFullUrl ps =
     ps\<lparr>pv := (pv ps)\<lparr>full_url_checked := isFullUrl,
                      mode_label := (if isFullUrl then ''Full URL'' else ''Domain only'')\<rparr>\<rparr>"

definition onSaveConfigRejected :: "popup_state \<Rightarrow> popup_state" where
  \<comment> \<open>the save button up to its \<open>set\<close>, then its \<open>catch\<close>; a guard's early return sends nothing\<close>
  "onSaveConfigRejected ps =
     (let (ps1, out) = onSaveConfig ps in
      if out = [] then ps1
      else ps\<lparr>pv := showNotification ''Error saving config'' ''error''
                     ((pv ps1)\<lparr>save_label := ''Save & Start Collecting'', save_disabled := False\<rparr>)\<rparr>)"

definition onStopRejected :: "popup_state \<Rightarrow> popup_state" where
  "onStopRejected ps = ps\<lparr>pv := showNotification ''Error stopping'' ''error'' (pv ps)\<rparr>"

definition onStartRejected :: "bool \<Rightarrow> popup_state \<Rightarrow> popup_state" where
  \<comment> \<open>\<open>read\<close>: the \<open>get\<close> rejects; otherwise the \<open>set\<close> after the configuration check does\<close>
  "onStartRejected read ps =
     (let (ps1, out) = onStartClick ps in
      if \<not> read \<and> out = [] then ps1 else ps\<lparr>pv := showNotification ''Error starting'' ''error'' (pv ps)\<rparr>)"

definition onClearRejected :: "bool \<Rightarrow> popup_state \<Rightarrow> popup_state" where
  "onClearRejected confirmed ps =
     (if \<not> confirmed then ps else ps\<lparr>pv := showNotification ''Error clearing'' ''error'' (pv ps)\<rparr>)"

fun onStorageFailure :: "storage_failure \<Rightarrow> popup_state \<Rightarrow> popup_state \<times> popup_out list" where
  \<comment> \<open>each handler run until its storage call rejects; Start pagination's \<open>set\<close> and
      \<open>refreshStats\<close>' \<open>get\<close> leave the popup as it was\<close>
  "onStorageFailure LoadReadFails ps = (onLoadRejected ps, [])"
| "onStorageFailure (ModeWriteFails isFullUrl) ps = (onModeToggleRejected isFullUrl ps, [])"
| "onStorageFailure PagSettingsWriteFails ps = (ps, [])"
| "onStorageFailure SaveWriteFails ps = (onSaveConfigRejected ps, [])"
| "onStorageFailure StopWriteFails ps = (onStopRejected ps, [])"
| "onStorageFailure StartReadFails ps = (onStartRejected True ps, [])"
| "onStorageFailure StartWriteFails ps = (onStartRejected False ps, [])"
| "onStorageFailure (ClearWriteFails confirmed) ps = (onClearRejected confirmed ps, [])"
| "onStorageFailure RefreshReadFails ps = (ps, [])"

fun popup_step :: "popup_event \<Rightarrow> popup_state \<Rightarrow> popup_state \<times> popup_out list" where
  "popup_step Opened ps = (ps\<lparr>pv := popup_load (pstore ps) (pv ps)\<rparr>, [])"
| "popup_step (TypeIp s) ps = (ps\<lparr>pv := (pv ps)\<lparr>ip_value := s\<rparr>\<rparr>, [])"
| "popup_step (TypePort s) ps = (ps\<lparr>pv := (pv ps)\<lparr>port_value := s\<rparr>\<rparr>, [])"
| "popup_step (TypeMaxPages s) ps = (ps\<lparr>pv := (pv ps)\<lparr>max_pages_value := s\<rparr>\<rparr>, [])"
| "popup_step (TypeDelay s) ps = (ps\<lparr>pv := (pv ps)\<lparr>page_delay_value := s\<rparr>\<rparr>, [])"
| "popup_step (ModeToggled b) ps = onModeToggle b ps"
| "popup_step (StartPaginationClick u) ps = onStartPagination u ps"
| "popup_step (StartPaginationReply n r) ps = (onStartPaginationReply n r ps, [])"
| "popup_step (StopPaginationClick t) ps = (ps, onStopPagination t ps)"
| "popup_step StopPaginationReply ps = (onStopPaginationReply ps, [])"
| "popup_step SaveClick ps = onSaveConfig ps"
| "popup_step (ConfigReply ip port r) ps = (onConfigReply ip port r ps, [])"
| "popup_step StopClick ps = onStopClick ps"
| "popup_step StartClick ps = onStartClick ps"
| "popup_step (ClearClick c) ps = (onClearClick c ps, [])"
| "popup_step (CopyClick d) ps = onCopyClick d ps"
| "popup_step RefreshTick ps = (ps\<lparr>pv := refreshStats (pstore ps) (pv ps)\<rparr>, [])"
| "popup_step (Incoming m) ps = (popup_on_message m ps, [])"
| "popup_step (StorageRejected f) ps = onStorageFailure f ps"

fun popup_run :: "popup_event list \<Rightarrow> popup_state \<Rightarrow> popup_state \<times> popup_out list" where
  "popup_run [] ps = (ps, [])"
| "popup_run (e # es) ps = (let (ps1, o1) = popup_step e ps; (ps2, o2) = popup_run es ps1 in (ps2, o1 @ o2))"

definition config_ok :: "storage \<Rightarrow> bool" where
  \<comment> \<open>what the popup guarantees of the endpoint it stores\<close>
  "config_ok st \<longleftrightarrow>
     (case (k_vpsIp st, k_vpsPort st) of
        (None, None) \<Rightarrow> True
      | (Some ip, Some p) \<Rightarrow> isValidHostname ip \<and> 1 \<le> p \<and> p \<le> 65535
      | _ \<Rightarrow> False)"

subsection \<open>Lemmas\<close>

lemma digits_host_label: "p \<noteq> [] \<Longrightarrow> list_all is_09 p \<Longrightarrow> host_label p"
proof -
  assume ne: "p \<noteq> []" and d: "list_all is_09 p"
  then have "is_09 (hd p)" and "is_09 (last p)" by (simp_all add: list_all_iff)
  with ne d show ?thesis by (auto simp: host_label_def list_all_iff is_alnum_def)
qed

lemma ip_pattern_hostname: "ip_pattern s \<Longrightarrow> hostname_pattern s"
  by (auto simp: ip_pattern_def hostname_pattern_def list_all_iff Let_def intro!: digits_host_label)

lemma hostname_pattern_not_Nil: "hostname_pattern s \<Longrightarrow> s \<noteq> []"
  by (auto simp: hostname_pattern_def host_label_def)

lemma isValidHostname_hostname: "isValidHostname s \<Longrightarrow> hostname_pattern s"
  using ip_pattern_hostname by (auto simp: isValidHostname_def split: if_splits)

lemma is_alnum_not_ws: "is_alnum c \<Longrightarrow> \<not> is_js_ws c"
  by (auto simp: is_alnum_def is_az_def is_upper_def is_09_def is_js_ws_def Let_def)

lemma hostname_pattern_no_ws: "hostname_pattern s \<Longrightarrow> c \<in> set s \<Longrightarrow> \<not> is_js_ws c"
proof -
  assume h: "hostname_pattern s" and c: "c \<in> set s"
  show ?thesis
  proof (cases "c = CHR ''.''")
    case True
    then show ?thesis by (simp add: is_js_ws_def)
  next
    case False
    with c obtain w where "w \<in> set (split_char (CHR ''.'') s)" and "c \<in> set w"
      using set_split_char by blast
    with h have "is_alnum c \<or> c = CHR ''-''"
      by (auto simp: hostname_pattern_def host_label_def list_all_iff)
    then show ?thesis using is_alnum_not_ws by (auto simp: is_js_ws_def)
  qed
qed

lemma isValidHostname_trim: "isValidHostname s \<Longrightarrow> js_trim s = s"
  using hostname_pattern_no_ws isValidHostname_hostname by (blast intro: js_trim_no_ws)

lemma js_show_int_pos: "0 < p \<Longrightarrow> js_show_int p = js_show_nat (nat p)"
  by (simp add: js_show_int_def)

lemma js_show_nat_no_ws: "c \<in> set (js_show_nat n) \<Longrightarrow> \<not> is_js_ws c"
  using js_show_nat_chars by blast

lemma parse_show_pos: "0 < p \<Longrightarrow> js_parseInt (js_trim (js_show_int p)) = Some p"
  using js_show_nat_no_ws by (simp add: js_show_int_pos js_trim_no_ws parseInt_show_nat)

lemma onSaveConfig_cases:
  "(\<exists>msg. onSaveConfig ps = (ps\<lparr>pv := showNotification msg ''error'' (pv ps)\<rparr>, [])) \<or>
   (let ip = js_trim (ip_value (pv ps)); p = js_or_num (js_parseInt (js_trim (port_value (pv ps)))) 9876 in
    isValidHostname ip \<and> 1 \<le> p \<and> p \<le> 65535 \<and>
    onSaveConfig ps =
      (ps\<lparr>pv := (pv ps)\<lparr>save_label := ''Testing...'', save_disabled := True\<rparr>,
          pstore := (pstore ps)\<lparr>k_vpsIp := Some ip, k_vpsPort := Some p,
                                k_isCollecting := Some True, k_autoExtract := Some True\<rparr>\<rparr>,
       [ToRuntime (ConfigUpdatedMsg ip p), ToRuntime (AutoExtractChangedMsg True)]))"
  by (auto simp: onSaveConfig_def Let_def)

lemma onSaveConfig_no_out_store: "snd (onSaveConfig ps) = [] \<Longrightarrow> pstore (fst (onSaveConfig ps)) = pstore ps"
  using onSaveConfig_cases [of ps] by (auto simp: Let_def)

lemma onStartClick_no_out_store: "snd (onStartClick ps) = [] \<Longrightarrow> pstore (fst (onStartClick ps)) = pstore ps"
  by (auto simp: onStartClick_def Let_def)

lemma onStorageFailure_store: "pstore (fst (onStorageFailure f ps)) = pstore ps"
  using onSaveConfig_no_out_store [of ps] onStartClick_no_out_store [of ps]
  by (cases f) (auto simp: onLoadRejected_def onModeToggleRejected_def onSaveConfigRejected_def onStopRejected_def
                           onStartRejected_def onClearRejected_def split_def Let_def)

lemma config_ok_save: "config_ok (pstore ps) \<Longrightarrow> config_ok (pstore (fst (onSaveConfig ps)))"
  by (auto simp: onSaveConfig_def config_ok_def Let_def split: option.splits)

lemma popup_step_config_ok:
  assumes "config_ok (pstore ps)"
  shows "config_ok (pstore (fst (popup_step e ps)))"
  using assms
proof (cases e)
  case SaveClick
  with assms show ?thesis by (simp add: config_ok_save)
qed (simp_all add: config_ok_def onModeToggle_def onStartPagination_def Let_def onStartPaginationReply_def
                   onStopPaginationReply_def onConfigReply_def onStopClick_def onStartClick_def onClearClick_def
                   onStorageFailure_store
                   onCopyClick_def popup_on_message_def split: option.splits bool.splits config_reply.splits popup_in.splits)

lemma popup_run_config_ok: "config_ok (pstore ps) \<Longrightarrow> config_ok (pstore (fst (popup_run evs ps)))"
proof (induction evs arbitrary: ps)
  case Nil
  then show ?case by simp
next
  case (Cons e evs)
  obtain ps1 o1 where s: "popup_step e ps = (ps1, o1)" by fastforce
  have "config_ok (pstore ps1)" using popup_step_config_ok [OF Cons.prems, of e] s by simp
  then have "config_ok (pstore (fst (popup_run evs ps1)))" by (rule Cons.IH)
  with s show ?case by (cases "popup_run evs ps1") simp
qed

subsection \<open>Properties\<close>

text \<open>
  C6. Whatever the user does in the popup, starting from empty storage, the endpoint the
  popup stores is either absent or a valid host name together with a port in 1 to 65535:
  the worker never reads a half-written or out-of-range configuration from the popup.
\<close>

theorem popup_stored_endpoint_valid:
  "config_ok (pstore (fst (popup_run evs \<lparr>pv = v, pstore = storage_empty\<rparr>)))"
  by (rule popup_run_config_ok) (simp add: config_ok_def storage_empty_def)

text \<open>
  C17. The host-name check accepts exactly the strings matching the host-name pattern,
  except dotted quads with an octet above 255: every string the IPv4 pattern matches also
  matches the host-name pattern, so the octet test is the only extra rejection.
\<close>

theorem isValidHostname_iff:
  "isValidHostname s \<longleftrightarrow>
     hostname_pattern s \<and> (ip_pattern s \<longrightarrow> list_all octet_ok (split_char (CHR ''.'') s))"
  using ip_pattern_hostname hostname_pattern_not_Nil by (auto simp: isValidHostname_def)

text \<open>
  C18. Save, reopen, save: after a successful save, reopening the popup fills the form from
  storage (the port printed as a decimal string) and saving again stores the same endpoint
  and sends the same messages.
\<close>

theorem save_reopen_save:
  assumes "onSaveConfig ps = (ps', out)" and "out \<noteq> []"
  shows "let ps'' = ps'\<lparr>pv := popup_load (pstore ps') v\<rparr> in
         pstore (fst (onSaveConfig ps'')) = pstore ps' \<and> snd (onSaveConfig ps'') = out"
proof -
  let ?ip = "js_trim (ip_value (pv ps))"
  let ?p = "js_or_num (js_parseInt (js_trim (port_value (pv ps)))) 9876"
  from assms onSaveConfig_cases [of ps] have ok: "isValidHostname ?ip" "1 \<le> ?p" "?p \<le> 65535"
    and ps': "ps' = ps\<lparr>pv := (pv ps)\<lparr>save_label := ''Testing...'', save_disabled := True\<rparr>,
          pstore := (pstore ps)\<lparr>k_vpsIp := Some ?ip, k_vpsPort := Some ?p,
                                k_isCollecting := Some True, k_autoExtract := Some True\<rparr>\<rparr>"
    and out: "out = [ToRuntime (ConfigUpdatedMsg ?ip ?p), ToRuntime (AutoExtractChangedMsg True)]"
    by (auto simp: Let_def)
  have ne: "?ip \<noteq> []" using ok(1) by (simp add: isValidHostname_def split: if_splits)
  have view: "ip_value (popup_load (pstore ps') v) = ?ip" "port_value (popup_load (pstore ps') v) = js_show_int ?p"
    using ne ok(2) by (simp_all add: ps' popup_load_def Let_def updateDomainsList_def updateStats_def
                        updateStatus_def showCollectingState_def showStoppedState_def split: option.splits)
  have trim: "js_trim ?ip = ?ip" using ok(1) by (rule isValidHostname_trim)
  have port: "js_or_num (js_parseInt (js_trim (js_show_int ?p))) 9876 = ?p"
    using ok(2) by (simp add: parse_show_pos)
  define v' where "v' = popup_load (pstore ps') v"
  have iv: "js_trim (ip_value v') = ?ip" and pvv: "js_or_num (js_parseInt (js_trim (port_value v'))) 9876 = ?p"
    using view trim port by (simp_all add: v'_def)
  have "onSaveConfig (ps'\<lparr>pv := v'\<rparr>) =
          (ps'\<lparr>pv := v'\<lparr>save_label := ''Testing...'', save_disabled := True\<rparr>,
               pstore := (pstore ps')\<lparr>k_vpsIp := Some ?ip, k_vpsPort := Some ?p,
                                      k_isCollecting := Some True, k_autoExtract := Some True\<rparr>\<rparr>,
           [ToRuntime (ConfigUpdatedMsg ?ip ?p), ToRuntime (AutoExtractChangedMsg True)])"
    using iv pvv ok ne by (simp add: onSaveConfig_def Let_def)
  moreover have "(pstore ps')\<lparr>k_vpsIp := Some ?ip, k_vpsPort := Some ?p,
                   k_isCollecting := Some True, k_autoExtract := Some True\<rparr> = pstore ps'"
    by (simp add: ps')
  ultimately show ?thesis by (simp add: v'_def out Let_def)
qed

text \<open>
  The popup lists the 30 most recently stored items, newest first:
  \<open>domains.slice(-30).reverse()\<close> is the first 30 of the reversed list.
\<close>

theorem updateDomainsList_recent:
  "domain_items (updateDomainsList ds v) = take 30 (rev ds)"
  by (simp add: updateDomainsList_def take_rev)

text \<open>
  The IPv4 branch of the host-name check only catches dotted quads of one to three
  digits: \<open>1234.5.6.7\<close> and the three-part \<open>1.2.3\<close> pass as host names, while
  \<open>256.1.1.1\<close> is rejected.
\<close>

theorem isValidHostname_accepts_bad_dotted_quads:
  "isValidHostname ''1234.5.6.7'' \<and> isValidHostname ''1.2.3'' \<and> \<not> isValidHostname ''256.1.1.1'' \<and>
   isValidHostname ''10.0.0.1''"
  by code_simp

text \<open>
  C37. A port field reading 0 is not rejected: \<open>parseInt(...) || 9876\<close> turns it into the
  default 9876, which is saved, so the range check \<open>vpsPort < 1\<close> only catches negative
  numbers.
\<close>

theorem onSaveConfig_zero_port:
  assumes "isValidHostname (js_trim (ip_value (pv ps)))" and "js_parseInt (js_trim (port_value (pv ps))) = Some 0"
  shows "k_vpsPort (pstore (fst (onSaveConfig ps))) = Some 9876 \<and> snd (onSaveConfig ps) \<noteq> []"
proof -
  have "js_trim (ip_value (pv ps)) \<noteq> []" using assms(1) by (auto simp: isValidHostname_def)
  with assms show ?thesis by (simp add: onSaveConfig_def js_or_num_def Let_def)
qed

text \<open>
  C25. A rejected storage call never leaves a trace outside the popup: whichever handler's
  \<open>chrome.storage.local\<close> call rejects, the store is unchanged and no message reaches the
  worker or a tab, so nothing announces a setting that was not stored.
\<close>

theorem storage_failure_no_effect:
  "pstore (fst (popup_step (StorageRejected f) ps)) = pstore ps \<and> snd (popup_step (StorageRejected f) ps) = []"
proof -
  have "snd (onStorageFailure f ps) = []" by (cases f) simp_all
  then show ?thesis by (simp add: onStorageFailure_store)
qed

end
