(* ===== verification/Control.thy ===== *)
theory Control
  imports Extractor Schema
begin

text \<open>
  The control code of the content script (\<open>src/content.js\<close>): \<open>init\<close>, the message listener,
  \<open>startAutoExtract\<close> and \<open>observePageChanges\<close> (the triggers that schedule extractions),
  and the auto-pagination coroutine \<open>startAutoPagination\<close> with \<open>goToNextPage\<close>. The state
  is the script's module variables (the extraction state of \<open>Extractor\<close> and the pagination
  variables), the browser's timer table of the page, the handles kept in
  \<open>window._cgMutationTimeout\<close> and \<open>scrollTimeout\<close>, the number of registered
  \<open>MutationObserver\<close>s, and the suspended calls of \<open>startAutoPagination\<close>. An \<open>async\<close>
  function runs from one \<open>await\<close> to the next in one step; a call suspended at
  \<open>await delay(ms)\<close> waits for its timer, a call suspended in \<open>goToNextPage\<close> waits for the
  page to answer whether a next-page link was found and followed (\<open>CNavDone\<close>). Each
  event is one step of \<open>content_step\<close>; the page shown and the clock are the environment
  \<open>cenv\<close> of the step.
\<close>

subsection \<open>State\<close>

datatype ctask =
    ExtractTask        \<comment> \<open>\<open>setTimeout(extractDomains, ms)\<close>\<close>
  | InitialCheck       \<comment> \<open>the 1 s initial extraction of \<open>init\<close>\<close>
  | ResumeLoop nat     \<comment> \<open>\<open>await delay(ms)\<close> of pagination call \<open>i\<close>\<close>

datatype loop_pc =
    AtLoopHead  \<comment> \<open>after \<open>await delay(paginationDelay)\<close>: next, the \<open>while\<close> test\<close>
  | AwaitNav    \<comment> \<open>suspended in \<open>await goToNextPage()\<close>\<close>
  | AfterLoad   \<comment> \<open>after \<open>await delay(1500)\<close>: next, extraction and progress\<close>

record content_script =
  core :: content_state
  autoPaginationEnabled :: bool
  currentPaginationPage :: int
  maxPaginationPages :: int
  paginationDelay :: int
  isPaginationRunning :: bool
  observers :: nat
  mutationTimeout :: "nat option"
  scrollTimeout :: "nat option"
  ctimers :: "(nat \<times> nat \<times> ctask) list"
  cnext :: nat
  loops :: "(nat \<times> loop_pc) list"
  next_loop :: nat

definition content_script_init :: content_script where
  \<comment> \<open>the module variables before \<open>init\<close> runs\<close>
  "content_script_init =
     \<lparr>core = \<lparr>isAutoExtractEnabled = False, collectFullUrl = False, extractedDomains = [], lastExtractTime = 0\<rparr>,
      autoPaginationEnabled = False, currentPaginationPage = 1, maxPaginationPages = 50,
      paginationDelay = 2000, isPaginationRunning = False, observers = 0,
      mutationTimeout = None, scrollTimeout = None, ctimers = [], cnext = 1, loops = [], next_loop = 0\<rparr>"

record cenv =
  ce_pf :: platform
  ce_now :: int
  ce_page :: page

datatype content_msg =
    ExtractNow | AutoExtractChanged bool | CollectModeChanged bool
  | StartPagination int int | StopPagination | PingContent | OtherContentMsg

datatype response =
    RespExtract "js_string list" bool  \<comment> \<open>\<open>{domains, success}\<close>\<close>
  | RespOk
  | RespAlive

datatype control_out =
    CEff content_effect
  | Respond response
  | ProgressMsg int int      \<comment> \<open>\<open>PAGINATION_PROGRESS\<close>\<close>
  | CompleteMsg int          \<comment> \<open>\<open>PAGINATION_COMPLETE\<close>\<close>
  | PagFeedback js_string    \<comment> \<open>\<open>showPaginationFeedback(message)\<close>\<close>
  | NavigateNext nat         \<comment> \<open>call \<open>i\<close> enters \<open>goToNextPage\<close>\<close>

datatype content_event =
    CMessage content_msg
  | CFire nat
  | CScroll | CPopState | CHashChange | CMutation
  | CInterval          \<comment> \<open>the 3 s \<open>setInterval\<close> of \<open>observePageChanges\<close>\<close>
  | CNavDone nat bool  \<comment> \<open>\<open>goToNextPage\<close> of call \<open>i\<close> resolves with \<open>hasNextPage\<close>\<close>

subsection \<open>Timers and extraction\<close>

definition c_set_timeout :: "nat \<Rightarrow> ctask \<Rightarrow> content_script \<Rightarrow> content_script \<times> nat" where
  "c_set_timeout d t st =
     (st\<lparr>ctimers := ctimers st @ [(cnext st, d, t)], cnext := Suc (cnext st)\<rparr>, cnext st)"

definition c_clear_timeout :: "nat option \<Rightarrow> content_script \<Rightarrow> content_script" where
  \<comment> \<open>\<open>clearTimeout(h)\<close>; \<open>clearTimeout(undefined)\<close> does nothing\<close>
  "c_clear_timeout h st =
     (case h of None \<Rightarrow> st | Some h' \<Rightarrow> st\<lparr>ctimers := filter (\<lambda>(x, _). x \<noteq> h') (ctimers st)\<rparr>)"

definition run_extract :: "cenv \<Rightarrow> content_script \<Rightarrow> content_script \<times> js_string list \<times> control_out list" where
  \<comment> \<open>a call of \<open>extractDomains()\<close> on the page shown\<close>
  "run_extract env st =
     (let (c', batch, effs) = extractDomains (ce_pf env) (ce_now env) (ce_page env) (core st)
      in (st\<lparr>core := c'\<rparr>, batch, map CEff effs))"

definition startAutoExtract :: "content_script \<Rightarrow> content_script" where
  \<comment> \<open>the initial \<open>setTimeout(extractDomains, 500)\<close> and one more \<open>MutationObserver\<close>\<close>
  "startAutoExtract st = (let (st1, _) = c_set_timeout 500 ExtractTask st in st1\<lparr>observers := Suc (observers st1)\<rparr>)"

definition content_init :: "storage \<Rightarrow> content_script" where
  \<comment> \<open>\<open>init()\<close> after its \<open>await chrome.storage.local.get\<close>; \<open>observePageChanges\<close> only
      registers listeners, which are the events \<open>CScroll\<close> to \<open>CInterval\<close>\<close>
  "content_init config =
     (let st = content_script_init;
          c = (core st)\<lparr>isAutoExtractEnabled := truthy_bool (k_autoExtract config),
                        collectFullUrl := truthy_bool (k_collectFullUrl config),
                        extractedDomains := js_set (extractedDomains (core st) @ list_or_nil (k_domains config))\<rparr>;
          st1 = st\<lparr>core := c, autoPaginationEnabled := truthy_bool (k_autoPagination config),
                   maxPaginationPages := js_or_num (k_maxPages config) 50,
                   paginationDelay := js_or_num (k_paginationDelay config) 2000\<rparr>;
          st2 = (if isAutoExtractEnabled c then startAutoExtract st1 else st1)
      in fst (c_set_timeout 1000 InitialCheck st2))"

subsection \<open>Auto-pagination\<close>

definition set_pc :: "nat \<Rightarrow> loop_pc \<Rightarrow> content_script \<Rightarrow> content_script" where
  "set_pc i pc st = st\<lparr>loops := map (\<lambda>(j, q). if j = i then (j, pc) else (j, q)) (loops st)\<rparr>"

definition await_delay :: "nat \<Rightarrow> int \<Rightarrow> loop_pc \<Rightarrow> content_script \<Rightarrow> content_script" where
  \<comment> \<open>\<open>await delay(ms)\<close> in call \<open>i\<close>; a negative delay waits 0 ms\<close>
  "await_delay i ms pc st = set_pc i pc (fst (c_set_timeout (nat ms) (ResumeLoop i) st))"

definition startAutoPagination :: "cenv \<Rightarrow> content_script \<Rightarrow> content_script \<times> control_out list" where
  "startAutoPagination env st =
     (if isPaginationRunning st then (st, [])
      else
        let st1 = st\<lparr>isPaginationRunning := True, currentPaginationPage := 1\<rparr>;
            (st2, _, outs) = run_extract env st1;
            i = next_loop st2;
            st3 = st2\<lparr>loops := loops st2 @ [(i, AtLoopHead)], next_loop := Suc i\<rparr>
        in (await_delay i (paginationDelay st3) AtLoopHead st3,
            PagFeedback ''Pagination started - Page 1'' # outs))"

definition finish_loop :: "nat \<Rightarrow> content_script \<Rightarrow> content_script \<times> control_out list" where
  \<comment> \<open>after the \<open>while\<close> loop: the flag is cleared and completion is reported\<close>
  "finish_loop i st =
     (let st1 = st\<lparr>isPaginationRunning := False, loops := filter (\<lambda>(j, _). j \<noteq> i) (loops st)\<rparr>
      in (st1, (if maxPaginationPages st1 \<le> currentPaginationPage st1
                then [PagFeedback (''Pagination complete - '' @ js_show_int (maxPaginationPages st1) @ '' pages collected'')]
                else [])
               @ [CompleteMsg (currentPaginationPage st1)]))"

definition loop_head :: "nat \<Rightarrow> content_script \<Rightarrow> content_script \<times> control_out list" where
  \<comment> \<open>the \<open>while\<close> test; when it holds, \<open>goToNextPage()\<close> starts\<close>
  "loop_head i st =
     (if autoPaginationEnabled st \<and> isPaginationRunning st \<and> currentPaginationPage st < maxPaginationPages st
      then (set_pc i AwaitNav st, [NavigateNext i])
      else finish_loop i st)"

definition nav_done :: "nat \<Rightarrow> bool \<Rightarrow> content_script \<Rightarrow> content_script \<times> control_out list" where
  "nav_done i hasNextPage st =
     (if \<not> hasNextPage then
        (let (st1, outs) = finish_loop i st in (st1, PagFeedback ''Pagination complete - No more pages'' # outs))
      else
        let st1 = st\<lparr>currentPaginationPage := currentPaginationPage st + 1\<rparr>
        in (await_delay i 1500 AfterLoad st1,
            [PagFeedback (''Collecting page '' @ js_show_int (currentPaginationPage st1) @ ''/'' @
                          js_show_int (maxPaginationPages st1))]))"

definition after_load :: "cenv \<Rightarrow> nat \<Rightarrow> content_script \<Rightarrow> content_script \<times> control_out list" where
  \<comment> \<open>extraction of the new page, progress message, \<open>await delay(paginationDelay)\<close>\<close>
  "after_load env i st =
     (let (st1, _, outs) = run_extract env st
      in (await_delay i (paginationDelay st1) AtLoopHead st1,
          outs @ [ProgressMsg (currentPaginationPage st1) (maxPaginationPages st1)]))"

subsection \<open>Events\<close>

definition fire_ctimer :: "cenv \<Rightarrow> nat \<Rightarrow> content_script \<Rightarrow> content_script \<times> control_out list" where
  "fire_ctimer env h st =
     (case find (\<lambda>(h', _). h' = h) (ctimers st) of
        None \<Rightarrow> (st, [])
      | Some (_, _, task) \<Rightarrow>
          (let st1 = c_clear_timeout (Some h) st in
           case task of
             ExtractTask \<Rightarrow> (let (st2, _, outs) = run_extract env st1 in (st2, outs))
           | InitialCheck \<Rightarrow>
               (if isGoogleSearchPage (ce_page env) \<and> isAutoExtractEnabled (core st1)
                then (let (st2, _, outs) = run_extract env st1 in (st2, outs)) else (st1, []))
           | ResumeLoop i \<Rightarrow>
               (case map_of (loops st1) i of
                  Some AtLoopHead \<Rightarrow> loop_head i st1
                | Some AfterLoad \<Rightarrow> after_load env i st1
                | _ \<Rightarrow> (st1, []))))"

definition content_on_message :: "cenv \<Rightarrow> content_msg \<Rightarrow> content_script \<Rightarrow> content_script \<times> control_out list" where
  \<comment> \<open>the \<open>chrome.runtime.onMessage\<close> listener registered by \<open>init\<close>\<close>
  "content_on_message env m st =
     (case m of
        ExtractNow \<Rightarrow>
          (if \<not> isAutoExtractEnabled (core st) then (st, [Respond (RespExtract [] False)])
           else let (st1, domains, outs) = run_extract env st in (st1, outs @ [Respond (RespExtract domains True)]))
      | AutoExtractChanged enabled \<Rightarrow>
          (let st1 = st\<lparr>core := (core st)\<lparr>isAutoExtractEnabled := enabled\<rparr>\<rparr>
           in (if enabled then startAutoExtract st1 else st1, [Respond RespOk]))
      | CollectModeChanged full \<Rightarrow>
          (st\<lparr>core := (core st)\<lparr>collectFullUrl := full\<rparr>\<rparr>, [Respond RespOk])
      | StartPagination mx d \<Rightarrow>
          (let st1 = st\<lparr>autoPaginationEnabled := True, maxPaginationPages := js_or_num (Some mx) 50,
                        paginationDelay := js_or_num (Some d) 2000, currentPaginationPage := 1\<rparr>;
               (st2, outs) = startAutoPagination env st1
           in (st2, outs @ [Respond RespOk]))
      | StopPagination \<Rightarrow> (st\<lparr>autoPaginationEnabled := False, isPaginationRunning := False\<rparr>, [Respond RespOk])
      | PingContent \<Rightarrow> (st, [Respond RespAlive])
      | OtherContentMsg \<Rightarrow> (st, []))"

definition mutation_callback :: "content_script \<Rightarrow> content_script" where
  \<comment> \<open>one observer's callback: re-arm the shared 300 ms debounce timer\<close>
  "mutation_callback st =
     (if isAutoExtractEnabled (core st) then
        (let (st1, h) = c_set_timeout 300 ExtractTask (c_clear_timeout (mutationTimeout st) st)
         in st1\<lparr>mutationTimeout := Some h\<rparr>)
      else st)"

fun content_step :: "cenv \<Rightarrow> content_event \<Rightarrow> content_script \<Rightarrow> content_script \<times> control_out list" where
  "content_step env (CMessage m) st = content_on_message env m st"
| "content_step env (CFire h) st = fire_ctimer env h st"
| "content_step env CScroll st =
     (if \<not> isAutoExtractEnabled (core st) then (st, [])
      else let (st1, h) = c_set_timeout 500 ExtractTask (c_clear_timeout (scrollTimeout st) st)
           in (st1\<lparr>scrollTimeout := Some h\<rparr>, []))"
| "content_step env CPopState st =
     (if isAutoExtractEnabled (core st) then (fst (c_set_timeout 1000 ExtractTask st), []) else (st, []))"
| "content_step env CHashChange st =
     (if isAutoExtractEnabled (core st) then (fst (c_set_timeout 500 ExtractTask st), []) else (st, []))"
| "content_step env CMutation st = ((mutation_callback ^^ observers st) st, [])"
| "content_step env CInterval st =
     (if isAutoExtractEnabled (core st) \<and> isGoogleSearchPage (ce_page env)
      then (let (st1, _, outs) = run_extract env st in (st1, outs)) else (st, []))"
| "content_step env (CNavDone i found) st =
     (if map_of (loops st) i = Some AwaitNav then nav_done i found st else (st, []))"

fun content_run :: "(cenv \<times> content_event) list \<Rightarrow> content_script \<Rightarrow> content_script \<times> control_out list" where
  "content_run [] st = (st, [])"
| "content_run ((env, ev) # evs) st =
     (let (st1, o1) = content_step env ev st; (st2, o2) = content_run evs st1 in (st2, o1 @ o2))"


subsection \<open>Driving one pagination call\<close>

definition script_ok :: "content_script \<Rightarrow> bool" where
  \<comment> \<open>timer handles are distinct and below the next handle; call numbers are below the next one\<close>
  "script_ok st \<longleftrightarrow>
     distinct (map fst (ctimers st)) \<and> (\<forall>h \<in> set (map fst (ctimers st)). h < cnext st) \<and>
     (\<forall>j \<in> set (map fst (loops st)). j < next_loop st)"

definition loop_ok :: "nat \<Rightarrow> content_script \<Rightarrow> bool" where
  \<comment> \<open>a call waiting on a delay has its timer; a call in \<open>goToNextPage\<close> passed the \<open>while\<close> test\<close>
  "loop_ok i st \<longleftrightarrow>
     (case map_of (loops st) i of
        None \<Rightarrow> True
      | Some AwaitNav \<Rightarrow> currentPaginationPage st < maxPaginationPages st
      | Some AtLoopHead \<Rightarrow> (\<exists>h d. (h, d, ResumeLoop i) \<in> set (ctimers st))
      | Some AfterLoad \<Rightarrow> currentPaginationPage st \<le> maxPaginationPages st \<and>
                         (\<exists>h d. (h, d, ResumeLoop i) \<in> set (ctimers st)))"

definition loop_measure :: "nat \<Rightarrow> content_script \<Rightarrow> nat" where
  "loop_measure i st =
     (case map_of (loops st) i of
        None \<Rightarrow> 0
      | Some pc \<Rightarrow> 3 * nat (maxPaginationPages st - currentPaginationPage st) +
                   (case pc of AwaitNav \<Rightarrow> 0 | AtLoopHead \<Rightarrow> 1 | AfterLoad \<Rightarrow> 2))"

definition own_event :: "(int \<Rightarrow> bool) \<Rightarrow> nat \<Rightarrow> loop_pc \<Rightarrow> content_script \<Rightarrow> content_event option" where
  \<comment> \<open>the next event of call \<open>i\<close>: the answer of the page, or the expiry of its timer\<close>
  "own_event nav i pc st =
     (if pc = AwaitNav then Some (CNavDone i (nav (currentPaginationPage st)))
      else map_option (\<lambda>(h, _). CFire h) (find (\<lambda>(h, _, t). t = ResumeLoop i) (ctimers st)))"

fun drive :: "nat \<Rightarrow> (int \<Rightarrow> bool) \<Rightarrow> cenv \<Rightarrow> nat \<Rightarrow> content_script \<Rightarrow> (content_script \<times> control_out list) option" where
  \<comment> \<open>runs call \<open>i\<close> alone for at most \<open>n\<close> of its events, the page answering \<open>nav p\<close> on page
      \<open>p\<close>; \<open>None\<close> when the fuel runs out or the call has no pending event\<close>
  "drive 0 nav env i st = (if map_of (loops st) i = None then Some (st, []) else None)"
| "drive (Suc n) nav env i st =
     (case map_of (loops st) i of
        None \<Rightarrow> Some (st, [])
      | Some pc \<Rightarrow>
          (case own_event nav i pc st of
             None \<Rightarrow> None
           | Some e \<Rightarrow>
               (let (st1, o1) = content_step env e st
                in map_option (\<lambda>(st2, o2). (st2, o1 @ o2)) (drive n nav env i st1))))"

subsection \<open>Lemmas and properties\<close>

lemma extractDomains_disabled: "\<not> isAutoExtractEnabled c \<Longrightarrow> extractDomains pf now pg c = (c, [], [])"
  by (simp add: extractDomains_def)

lemma run_extract_disabled:
  "\<not> isAutoExtractEnabled (core st) \<Longrightarrow> run_extract env st = (st, [], [])"
  by (simp add: run_extract_def extractDomains_disabled)

lemma run_extract_core: "\<exists>c'. fst (run_extract env st) = st\<lparr>core := c'\<rparr>"
  by (auto simp: run_extract_def split: prod.splits)

lemma c_timer_core [simp]:
  "core (fst (c_set_timeout d t st)) = core st" "core (c_clear_timeout h st) = core st"
  "core (set_pc i pc st) = core st" "core (await_delay i ms pc st) = core st"
  by (simp_all add: c_set_timeout_def c_clear_timeout_def set_pc_def await_delay_def split: option.splits)

lemma mutation_callback_core [simp]: "core ((mutation_callback ^^ n) st) = core st"
  by (induction n) (simp_all add: mutation_callback_def c_set_timeout_def c_clear_timeout_def split: option.splits)

lemma startAutoExtract_core [simp]: "core (startAutoExtract st) = core st"
  by (simp add: startAutoExtract_def c_set_timeout_def)

lemma finish_loop_core: "core (fst (finish_loop i st)) = core st" "\<forall>e. CEff e \<notin> set (snd (finish_loop i st))"
  by (simp_all add: finish_loop_def Let_def)

lemma stopped_no_effects:
  assumes "\<not> isAutoExtractEnabled (core st)" and "ev \<noteq> CMessage (AutoExtractChanged True)"
  shows "(\<forall>e. CEff e \<notin> set (snd (content_step env ev st))) \<and>
         \<not> isAutoExtractEnabled (core (fst (content_step env ev st)))"
proof (cases ev)
  case (CMessage m)
  with assms show ?thesis
    by (cases m) (auto simp: content_on_message_def startAutoPagination_def run_extract_disabled await_delay_def Let_def)
next
  case (CFire h)
  with assms show ?thesis
    by (auto simp: fire_ctimer_def run_extract_disabled loop_head_def after_load_def finish_loop_def
                   set_pc_def Let_def split: option.splits ctask.splits loop_pc.splits)
next
  case (CNavDone i b)
  with assms show ?thesis
    by (auto simp: nav_done_def finish_loop_def Let_def)
qed (use assms in \<open>auto simp: run_extract_disabled split: prod.splits\<close>)


lemma map_of_set_pc: "map_of (map (\<lambda>(j, q). if j = i then (j, pc) else (j, q)) xs) k =
    (if k = i then map_option (\<lambda>_. pc) (map_of xs k) else map_of xs k)"
  by (induction xs) auto

lemma map_of_filter_other: "map_of (filter (\<lambda>(j, _). j \<noteq> i) xs) i = None"
  by (induction xs) auto

lemma set_pc_fields [simp]:
  "ctimers (set_pc i pc st) = ctimers st" "cnext (set_pc i pc st) = cnext st"
  "currentPaginationPage (set_pc i pc st) = currentPaginationPage st"
  "maxPaginationPages (set_pc i pc st) = maxPaginationPages st"
  "next_loop (set_pc i pc st) = next_loop st"
  "map_of (loops (set_pc i pc st)) i = map_option (\<lambda>_. pc) (map_of (loops st) i)"
  by (simp_all add: set_pc_def map_of_set_pc)

lemma map_fst_set_pc [simp]: "map fst (loops (set_pc i pc st)) = map fst (loops st)"
proof -
  have "map fst (map (\<lambda>(j, q). if j = i then (j, pc) else (j, q)) xs) = map fst xs" for xs :: "(nat \<times> loop_pc) list"
    by (induction xs) auto
  then show ?thesis by (simp add: set_pc_def)
qed

lemma script_ok_set_timeout: "script_ok st \<Longrightarrow> script_ok (fst (c_set_timeout d t st))"
  by (auto simp: script_ok_def c_set_timeout_def)

lemma script_ok_clear: "script_ok st \<Longrightarrow> script_ok (c_clear_timeout h st)"
  by (auto simp: script_ok_def c_clear_timeout_def distinct_map_filter split: option.splits prod.splits)

lemma script_ok_set_pc: "script_ok st \<Longrightarrow> script_ok (set_pc i pc st)"
  by (simp add: script_ok_def)

lemma await_delay_facts:
  assumes "script_ok st"
  shows "script_ok (await_delay i ms pc st)"
    and "(cnext st, nat ms, ResumeLoop i) \<in> set (ctimers (await_delay i ms pc st))"
    and "map_of (loops (await_delay i ms pc st)) i = map_option (\<lambda>_. pc) (map_of (loops st) i)"
    and "currentPaginationPage (await_delay i ms pc st) = currentPaginationPage st"
    and "maxPaginationPages (await_delay i ms pc st) = maxPaginationPages st"
proof -
  show "script_ok (await_delay i ms pc st)"
    using assms by (simp add: await_delay_def script_ok_set_pc script_ok_set_timeout)
qed (simp_all add: await_delay_def c_set_timeout_def)


lemma finish_loop_facts:
  assumes "script_ok st"
  shows "script_ok (fst (finish_loop i st))" and "map_of (loops (fst (finish_loop i st))) i = None"
    and "\<exists>k. CompleteMsg k \<in> set (snd (finish_loop i st))"
  using assms by (auto simp: finish_loop_def Let_def script_ok_def map_of_filter_other)

lemma own_step_nav:
  assumes ok: "script_ok st" "loop_ok i st" and pc: "map_of (loops st) i = Some AwaitNav"
  shows "let (st', outs) = content_step env (CNavDone i b) st in
         script_ok st' \<and> loop_ok i st' \<and>
         (map_of (loops st') i = None \<longrightarrow> (\<exists>k. CompleteMsg k \<in> set outs)) \<and>
         (map_of (loops st') i \<noteq> None \<longrightarrow> loop_measure i st' < loop_measure i st)"
proof (cases b)
  case False
  with pc finish_loop_facts [OF ok(1), of i] show ?thesis
    by (auto simp: nav_done_def loop_ok_def split: prod.splits)
next
  case True
  let ?st1 = "st\<lparr>currentPaginationPage := currentPaginationPage st + 1\<rparr>"
  have ok1: "script_ok ?st1" using ok(1) by (simp add: script_ok_def)
  from ok(2) pc have lt: "currentPaginationPage st < maxPaginationPages st" by (simp add: loop_ok_def)
  have "nat (maxPaginationPages st - (currentPaginationPage st + 1)) + 1 = nat (maxPaginationPages st - currentPaginationPage st)"
    using lt by simp
  with True pc lt await_delay_facts [OF ok1, where i = i and ms = 1500 and pc = AfterLoad] show ?thesis
    by (fastforce simp: nav_done_def loop_ok_def loop_measure_def)
qed

lemma fire_own_timer:
  assumes "script_ok st" and "(h, d, ResumeLoop i) \<in> set (ctimers st)"
  shows "content_step env (CFire h) st =
           (case map_of (loops (c_clear_timeout (Some h) st)) i of
              Some AtLoopHead \<Rightarrow> loop_head i (c_clear_timeout (Some h) st)
            | Some AfterLoad \<Rightarrow> after_load env i (c_clear_timeout (Some h) st)
            | _ \<Rightarrow> (c_clear_timeout (Some h) st, []))"
proof -
  from assms have "find (\<lambda>(h', _). h' = h) (ctimers st) = Some (h, d, ResumeLoop i)"
    by (intro find_key_distinct) (simp_all add: script_ok_def)
  then show ?thesis by (simp add: fire_ctimer_def Let_def)
qed

lemma clear_fields [simp]:
  "loops (c_clear_timeout h st) = loops st"
  "currentPaginationPage (c_clear_timeout h st) = currentPaginationPage st"
  "maxPaginationPages (c_clear_timeout h st) = maxPaginationPages st"
  "autoPaginationEnabled (c_clear_timeout h st) = autoPaginationEnabled st"
  "isPaginationRunning (c_clear_timeout h st) = isPaginationRunning st"
  "paginationDelay (c_clear_timeout h st) = paginationDelay st"
  by (simp_all add: c_clear_timeout_def split: option.splits)

lemma own_step_head:
  assumes ok: "script_ok st" and pc: "map_of (loops st) i = Some AtLoopHead"
    and h: "(h, d, ResumeLoop i) \<in> set (ctimers st)"
  shows "let (st', outs) = content_step env (CFire h) st in
         script_ok st' \<and> loop_ok i st' \<and>
         (map_of (loops st') i = None \<longrightarrow> (\<exists>k. CompleteMsg k \<in> set outs)) \<and>
         (map_of (loops st') i \<noteq> None \<longrightarrow> loop_measure i st' < loop_measure i st)"
proof -
  let ?st1 = "c_clear_timeout (Some h) st"
  have ok1: "script_ok ?st1" using ok by (rule script_ok_clear)
  show ?thesis
    using fire_own_timer [OF ok h, of env] pc finish_loop_facts [OF ok1, of i] ok1
    by (auto simp: loop_head_def loop_ok_def loop_measure_def script_ok_set_pc split: prod.splits)
qed

lemma run_extract_fields [simp]:
  "loops (fst (run_extract env st)) = loops st" "ctimers (fst (run_extract env st)) = ctimers st"
  "cnext (fst (run_extract env st)) = cnext st" "next_loop (fst (run_extract env st)) = next_loop st"
  "currentPaginationPage (fst (run_extract env st)) = currentPaginationPage st"
  "maxPaginationPages (fst (run_extract env st)) = maxPaginationPages st"
  "paginationDelay (fst (run_extract env st)) = paginationDelay st"
  "isPaginationRunning (fst (run_extract env st)) = isPaginationRunning st"
  "autoPaginationEnabled (fst (run_extract env st)) = autoPaginationEnabled st"
  using run_extract_core [of env st] by auto

lemma script_ok_run_extract: "script_ok st \<Longrightarrow> script_ok (fst (run_extract env st))"
  by (simp add: script_ok_def)

lemma own_step_after:
  assumes ok: "script_ok st" "loop_ok i st" and pc: "map_of (loops st) i = Some AfterLoad"
    and h: "(h, d, ResumeLoop i) \<in> set (ctimers st)"
  shows "let (st', outs) = content_step env (CFire h) st in
         script_ok st' \<and> loop_ok i st' \<and>
         (map_of (loops st') i = None \<longrightarrow> (\<exists>k. CompleteMsg k \<in> set outs)) \<and>
         (map_of (loops st') i \<noteq> None \<longrightarrow> loop_measure i st' < loop_measure i st)"
proof -
  let ?st1 = "c_clear_timeout (Some h) st"
  let ?st2 = "fst (run_extract env ?st1)"
  have ok2: "script_ok ?st2" using ok(1) by (intro script_ok_run_extract script_ok_clear)
  have eq: "content_step env (CFire h) st =
      (await_delay i (paginationDelay ?st2) AtLoopHead ?st2,
       snd (snd (run_extract env ?st1)) @ [ProgressMsg (currentPaginationPage ?st2) (maxPaginationPages ?st2)])"
  proof -
    have "content_step env (CFire h) st = after_load env i ?st1"
      using fire_own_timer [OF ok(1) h, of env] pc by simp
    then show ?thesis by (simp add: after_load_def split_def Let_def)
  qed
  show ?thesis
    unfolding eq
    using await_delay_facts [OF ok2, where i = i and ms = "paginationDelay ?st2" and pc = AtLoopHead] pc
    by (auto simp: loop_ok_def loop_measure_def)
qed


lemma find_resume:
  assumes "(h, d, ResumeLoop i) \<in> set xs"
  shows "\<exists>h' d'. find (\<lambda>(h, _, t). t = ResumeLoop i) xs = Some (h', d', ResumeLoop i) \<and>
                (h', d', ResumeLoop i) \<in> set xs"
proof -
  have "find (\<lambda>(h, _, t). t = ResumeLoop i) xs \<noteq> None"
    using assms by (auto simp: find_None_iff)
  then obtain x where "find (\<lambda>(h, _, t). t = ResumeLoop i) xs = Some x" by blast
  with find_Some_mem [OF this] show ?thesis by (cases x) auto
qed

lemma own_event_step:
  assumes ok: "script_ok st" "loop_ok i st" and pc: "map_of (loops st) i = Some pc"
  shows "\<exists>e. own_event nav i pc st = Some e \<and>
         (let (st', outs) = content_step env e st in
          script_ok st' \<and> loop_ok i st' \<and>
          (map_of (loops st') i = None \<longrightarrow> (\<exists>k. CompleteMsg k \<in> set outs)) \<and>
          (map_of (loops st') i \<noteq> None \<longrightarrow> loop_measure i st' < loop_measure i st))"
proof (cases pc)
  case AwaitNav
  then show ?thesis using own_step_nav [OF ok] pc by (simp add: own_event_def)
next
  case AtLoopHead
  with ok(2) pc obtain h d where "(h, d, ResumeLoop i) \<in> set (ctimers st)" by (auto simp: loop_ok_def)
  from find_resume [OF this] obtain h' d' where
    f: "find (\<lambda>(h, _, t). t = ResumeLoop i) (ctimers st) = Some (h', d', ResumeLoop i)"
    and m: "(h', d', ResumeLoop i) \<in> set (ctimers st)" by blast
  show ?thesis using AtLoopHead own_step_head [OF ok(1) _ m] pc f by (simp add: own_event_def)
next
  case AfterLoad
  with ok(2) pc obtain h d where "(h, d, ResumeLoop i) \<in> set (ctimers st)" by (auto simp: loop_ok_def)
  from find_resume [OF this] obtain h' d' where
    f: "find (\<lambda>(h, _, t). t = ResumeLoop i) (ctimers st) = Some (h', d', ResumeLoop i)"
    and m: "(h', d', ResumeLoop i) \<in> set (ctimers st)" by blast
  show ?thesis using AfterLoad own_step_after [OF ok _ m] pc f by (simp add: own_event_def)
qed

lemma drive_finishes:
  "script_ok st \<Longrightarrow> loop_ok i st \<Longrightarrow> (map_of (loops st) i \<noteq> None \<longrightarrow> loop_measure i st < n) \<Longrightarrow>
   \<exists>st' outs. drive n nav env i st = Some (st', outs) \<and> map_of (loops st') i = None \<and>
     (map_of (loops st) i \<noteq> None \<longrightarrow> (\<exists>k. CompleteMsg k \<in> set outs))"
proof (induction n arbitrary: st)
  case 0
  then show ?case by auto
next
  case (Suc n)
  show ?case
  proof (cases "map_of (loops st) i")
    case None
    then show ?thesis by simp
  next
    case (Some pc)
    from own_event_step [OF Suc.prems(1,2) Some, of nav env] obtain e where
      e: "own_event nav i pc st = Some e" and
      step: "let (st', outs) = content_step env e st in
          script_ok st' \<and> loop_ok i st' \<and>
          (map_of (loops st') i = None \<longrightarrow> (\<exists>k. CompleteMsg k \<in> set outs)) \<and>
          (map_of (loops st') i \<noteq> None \<longrightarrow> loop_measure i st' < loop_measure i st)"
      by blast
    obtain st1 o1 where s1: "content_step env e st = (st1, o1)" by fastforce
    from step s1 have ok1: "script_ok st1" "loop_ok i st1"
      and fin: "map_of (loops st1) i = None \<longrightarrow> (\<exists>k. CompleteMsg k \<in> set o1)"
      and dec: "map_of (loops st1) i \<noteq> None \<longrightarrow> loop_measure i st1 < loop_measure i st"
      by auto
    from dec Suc.prems(3) Some have "map_of (loops st1) i \<noteq> None \<longrightarrow> loop_measure i st1 < n" by auto
    from Suc.IH [OF ok1 this] obtain st' o2 where
      d: "drive n nav env i st1 = Some (st', o2)" and gone: "map_of (loops st') i = None"
      and c: "map_of (loops st1) i \<noteq> None \<longrightarrow> (\<exists>k. CompleteMsg k \<in> set o2)" by blast
    show ?thesis using Some e s1 d gone c fin by auto
  qed
qed

lemma map_of_append_fresh:
  "k \<notin> set (map fst xs) \<Longrightarrow> map_of (xs @ [(k, v)]) k = Some v"
proof -
  assume "k \<notin> set (map fst xs)"
  then have "map_of xs k = None" by (simp add: map_of_eq_None_iff)
  then show ?thesis by (simp add: map_add_def)
qed


lemma startAutoPagination_facts:
  assumes ok: "script_ok st" and idle: "\<not> isPaginationRunning st"
  shows "script_ok (fst (startAutoPagination env st)) \<and> loop_ok (next_loop st) (fst (startAutoPagination env st)) \<and>
         map_of (loops (fst (startAutoPagination env st))) (next_loop st) = Some AtLoopHead \<and>
         currentPaginationPage (fst (startAutoPagination env st)) = 1 \<and>
         maxPaginationPages (fst (startAutoPagination env st)) = maxPaginationPages st"
proof -
  let ?st1 = "st\<lparr>isPaginationRunning := True, currentPaginationPage := 1\<rparr>"
  let ?st2 = "fst (run_extract env ?st1)"
  let ?i = "next_loop st"
  let ?st3 = "?st2\<lparr>loops := loops ?st2 @ [(?i, AtLoopHead)], next_loop := Suc ?i\<rparr>"
  have ok3: "script_ok ?st3" using ok by (auto simp: script_ok_def)
  have fresh: "?i \<notin> set (map fst (loops ?st2))" using ok by (auto simp: script_ok_def)
  have m3: "map_of (loops ?st3) ?i = Some AtLoopHead"
    using map_of_append_fresh [OF fresh, of AtLoopHead] by (simp del: map_of_append)
  have eq: "fst (startAutoPagination env st) = await_delay ?i (paginationDelay ?st3) AtLoopHead ?st3"
    using idle by (simp add: startAutoPagination_def split_def Let_def)
  show ?thesis
    unfolding eq
    using await_delay_facts [OF ok3, where i = ?i and ms = "paginationDelay ?st3" and pc = AtLoopHead] m3
    by (auto simp: loop_ok_def)
qed

text \<open>
  C4. Termination of auto-pagination: a \<open>START_PAGINATION\<close> message to a script that is not
  paginating starts a call of \<open>startAutoPagination\<close> that, fed its own events alone (its
  timers and the page's answers to \<open>goToNextPage\<close>, whatever they are), ends within
  \<open>3 * (maxPages - 1) + 3\<close> of them and sends \<open>PAGINATION_COMPLETE\<close>.
\<close>

theorem start_pagination_finishes:
  assumes "script_ok st" and "\<not> isPaginationRunning st"
  shows "let (st1, outs) = content_step env (CMessage (StartPagination mx d)) st in
         map_of (loops st1) (next_loop st) = Some AtLoopHead \<and>
         (\<exists>st' outs'. drive (3 * nat (js_or_num (Some mx) 50 - 1) + 3) nav env' (next_loop st) st1 = Some (st', outs') \<and>
            map_of (loops st') (next_loop st) = None \<and> (\<exists>k. CompleteMsg k \<in> set outs'))"
proof -
  let ?st0 = "st\<lparr>autoPaginationEnabled := True, maxPaginationPages := js_or_num (Some mx) 50,
                  paginationDelay := js_or_num (Some d) 2000, currentPaginationPage := 1\<rparr>"
  have ok0: "script_ok ?st0" using assms(1) by (simp add: script_ok_def)
  have idle0: "\<not> isPaginationRunning ?st0" using assms(2) by simp
  note f = startAutoPagination_facts [OF ok0 idle0, of env]
  let ?st1 = "fst (startAutoPagination env ?st0)"
  have step: "fst (content_step env (CMessage (StartPagination mx d)) st) = ?st1"
    by (simp add: content_on_message_def split_def Let_def)
  have "loop_measure (next_loop st) ?st1 < 3 * nat (js_or_num (Some mx) 50 - 1) + 3"
    using f by (simp add: loop_measure_def)
  with f drive_finishes [of ?st1 "next_loop st" "3 * nat (js_or_num (Some mx) 50 - 1) + 3" nav env']
  show ?thesis using step by (auto simp: split_def)
qed


text \<open>
  C13. While collection is stopped, nothing reaches storage or the worker: along any sequence
  of messages, timers, page events and navigation answers in which no
  \<open>AUTO_EXTRACT_CHANGED\<close> message turns collection on, the content script emits no
  \<open>saveDomains\<close>, \<open>SEND_TO_VPS\<close>, \<open>DOMAINS_EXTRACTED\<close> or feedback effect.
\<close>

theorem content_run_stopped:
  assumes "\<not> isAutoExtractEnabled (core st)"
    and "\<forall>(env, ev) \<in> set evs. ev \<noteq> CMessage (AutoExtractChanged True)"
  shows "\<forall>e. CEff e \<notin> set (snd (content_run evs st))"
  using assms
proof (induction evs arbitrary: st)
  case Nil
  then show ?case by simp
next
  case (Cons x evs)
  obtain env ev where x: "x = (env, ev)" by (cases x)
  obtain st1 o1 where s1: "content_step env ev st = (st1, o1)" by fastforce
  from Cons.prems x have ev: "ev \<noteq> CMessage (AutoExtractChanged True)" by simp
  from stopped_no_effects [OF Cons.prems(1) ev, of env] s1
  have o1: "\<forall>e. CEff e \<notin> set o1" and off: "\<not> isAutoExtractEnabled (core st1)" by auto
  from Cons.IH [OF off] Cons.prems(2) have "\<forall>e. CEff e \<notin> set (snd (content_run evs st1))" by simp
  with o1 show ?case by (cases "content_run evs st1") (simp add: x s1)
qed

lemmas control_eval = content_on_message_def startAutoPagination_def run_extract_def extractDomains_def
  c_set_timeout_def c_clear_timeout_def await_delay_def set_pc_def fire_ctimer_def loop_head_def
  nav_done_def after_load_def finish_loop_def content_script_init_def js_or_num_def


text \<open>
  A \<open>START_PAGINATION\<close> message while a call is running resets
  \<open>currentPaginationPage\<close> to 1 without starting a new call, so the running call with
  \<open>maxPages = 2\<close> navigates to a next page twice.
\<close>

theorem pagination_restart_resets_page:
  "let (st, outs) = content_run [(env, CMessage (StartPagination 2 0)), (env, CFire 1), (env, CNavDone 0 True),
                                 (env, CFire 2), (env, CMessage (StartPagination 2 0)), (env, CFire 3)]
                                content_script_init
   in maxPaginationPages st = 2 \<and> filter (\<lambda>x. x = NavigateNext 0) outs = [NavigateNext 0, NavigateNext 0]"
  by (simp add: control_eval Let_def)

end
