(* ===== verification/Tabs.thy ===== *)
theory Tabs
  imports Control
begin

text \<open>
  The worker's hooks on browser tabs (\<open>src/background.js\<close>): \<open>notifyAllTabs\<close>, which forwards
  \<open>AUTO_EXTRACT_CHANGED\<close> and \<open>COLLECT_MODE_CHANGED\<close> to the Google tabs, and the
  \<open>chrome.tabs.onUpdated\<close> listener, which asks a Google search tab that has finished loading
  to extract, 1.5 s later, when collection is on. The URL test is the regular expression
  \<open>/^https?:\/\/(www\.)?google\.[a-z.]+\/search/\<close>, written as a deterministic matcher and
  proved equal to the language the expression denotes. The tabs the browser returns for the
  query are an input; whether a tab has a content script to answer is not modelled (a
  failing \<open>sendMessage\<close> is caught and only logged).
\<close>

datatype tab_msg = ExtractNowMsg | FwdAutoExtract bool | FwdCollectMode bool

definition is_az_dot :: "char \<Rightarrow> bool" where
  \<comment> \<open>the character class \<open>[a-z.]\<close>\<close>
  "is_az_dot c \<longleftrightarrow> is_az c \<or> c = CHR ''.''"

definition opt_prefix :: "js_string \<Rightarrow> js_string \<Rightarrow> js_string" where
  \<comment> \<open>an optional group \<open>(p)?\<close>: consumed when present\<close>
  "opt_prefix p s = (if take (length p) s = p then drop (length p) s else s)"

definition isGoogleSearchUrl :: "js_string \<Rightarrow> bool" where
  "isGoogleSearchUrl u =
     (take 4 u = ''http'' \<and>
      (let s1 = opt_prefix ''s'' (drop 4 u) in
       take 3 s1 = ''://'' \<and>
       (let s2 = opt_prefix ''www.'' (drop 3 s1) in
        take 7 s2 = ''google.'' \<and>
        (let s3 = drop 7 s2; host = takeWhile is_az_dot s3 in
         host \<noteq> [] \<and> take 7 (drop (length host) s3) = ''/search''))))"

definition google_search_lang :: "js_string \<Rightarrow> bool" where
  \<comment> \<open>the strings with a prefix in the language of the expression\<close>
  "google_search_lang u \<longleftrightarrow>
     (\<exists>sc w d r. sc \<in> {[], ''s''} \<and> w \<in> {[], ''www.''} \<and> d \<noteq> [] \<and> list_all is_az_dot d \<and>
        u = ''http'' @ sc @ ''://'' @ w @ ''google.'' @ d @ ''/search'' @ r)"

definition notifyAllTabs :: "nat list option \<Rightarrow> tab_msg \<Rightarrow> (nat \<times> tab_msg) list" where
  \<comment> \<open>\<open>None\<close>: \<open>chrome.tabs.query\<close> rejected, which is caught and logged\<close>
  "notifyAllTabs tabs msg = (case tabs of None \<Rightarrow> [] | Some ts \<Rightarrow> map (\<lambda>t. (t, msg)) ts)"

definition onTabUpdated :: "storage \<Rightarrow> nat \<Rightarrow> js_string option \<Rightarrow> js_string option \<Rightarrow> (nat \<times> nat \<times> tab_msg) list" where
  \<comment> \<open>\<open>(tabId, changeInfo.status, tab.url)\<close> to the timers it arms: delay, tab, message;
      \<open>config\<close> is what the awaited \<open>chrome.storage.local.get\<close> returns\<close>
  "onTabUpdated config tabId status url =
     (case url of
        None \<Rightarrow> []
      | Some u \<Rightarrow>
          if status = Some ''complete'' \<and> u \<noteq> [] \<and> isGoogleSearchUrl u then
            (if truthy_bool (k_autoExtract config) \<and> truthy_bool (k_isCollecting config)
             then [(1500, tabId, ExtractNowMsg)] else [])
          else [])"

definition tab_to_content :: "tab_msg \<Rightarrow> content_msg" where
  \<comment> \<open>the message as the content script's listener receives it\<close>
  "tab_to_content m = (case m of ExtractNowMsg \<Rightarrow> ExtractNow | FwdAutoExtract b \<Rightarrow> AutoExtractChanged b
                                | FwdCollectMode b \<Rightarrow> CollectModeChanged b)"

definition broadcast :: "cenv \<Rightarrow> (nat \<times> tab_msg) list \<Rightarrow> (nat \<Rightarrow> content_script) \<Rightarrow> (nat \<Rightarrow> content_script)" where
  \<comment> \<open>the tabs' content scripts handle the messages \<open>notifyAllTabs\<close> sent, in order\<close>
  "broadcast env sends tabs =
     fold (\<lambda>(t, m) tbs. tbs(t := fst (content_on_message env (tab_to_content m) (tbs t)))) sends tabs"

subsection \<open>Lemmas\<close>

lemma opt_prefix_cases:
  "opt_prefix p s = s \<or> (s = p @ opt_prefix p s)"
  by (auto simp: opt_prefix_def) (metis append_take_drop_id)

lemma take_eq_prefix: "take (length p) s = p \<longleftrightarrow> (\<exists>r. s = p @ r)"
  by (metis append_eq_conv_conj)

lemma takeWhile_az_stop: "list_all is_az_dot d \<Longrightarrow> takeWhile is_az_dot (d @ CHR ''/'' # r) = d"
  by (induction d) (auto simp: is_az_dot_def is_az_def)

lemma isGoogleSearchUrl_lang: "google_search_lang u \<Longrightarrow> isGoogleSearchUrl u"
proof -
  assume "google_search_lang u"
  then obtain sc w d r where sc: "sc \<in> {[], ''s''}" and w: "w \<in> {[], ''www.''}" and d: "d \<noteq> []"
    "list_all is_az_dot d" and u: "u = ''http'' @ sc @ ''://'' @ w @ ''google.'' @ d @ ''/search'' @ r"
    by (auto simp: google_search_lang_def)
  let ?s1 = "opt_prefix ''s'' (drop 4 u)"
  let ?s2 = "opt_prefix ''www.'' (drop 3 ?s1)"
  have s1: "?s1 = ''://'' @ w @ ''google.'' @ d @ ''/search'' @ r"
    using sc by (auto simp: u opt_prefix_def)
  have s2: "?s2 = ''google.'' @ d @ ''/search'' @ r"
    unfolding s1 using w by (auto simp: opt_prefix_def)
  have pre1: "take 4 u = ''http''" "take 3 ?s1 = ''://''"
    unfolding s1 by (simp_all add: u)
  have pre2: "take 7 ?s2 = ''google.''" "drop 7 ?s2 = d @ ''/search'' @ r"
    unfolding s2 by simp_all
  have tw: "takeWhile is_az_dot (d @ ''/search'' @ r) = d" using takeWhile_az_stop [OF d(2)] by simp
  show ?thesis
    unfolding isGoogleSearchUrl_def Let_def pre1 pre2 tw using d(1) by simp
qed

lemma take_prefix_split: "take n s = p \<Longrightarrow> length p = n \<Longrightarrow> s = p @ drop n s"
  by (metis append_take_drop_id)

lemma opt_prefix_split: "\<exists>sc. sc \<in> {[], p} \<and> s = sc @ opt_prefix p s"
  using opt_prefix_cases [of p s] by (metis append_Nil insertCI)

lemma lang_isGoogleSearchUrl: "isGoogleSearchUrl u \<Longrightarrow> google_search_lang u"
proof -
  assume h: "isGoogleSearchUrl u"
  define s1 where "s1 = opt_prefix ''s'' (drop 4 u)"
  define s2 where "s2 = opt_prefix ''www.'' (drop 3 s1)"
  define s3 where "s3 = drop 7 s2"
  define d where "d = takeWhile is_az_dot s3"
  define r where "r = drop 7 (drop (length d) s3)"
  have t: "take 4 u = ''http''" "take 3 s1 = ''://''" "take 7 s2 = ''google.''" "d \<noteq> []"
    "take 7 (drop (length d) s3) = ''/search''"
    using h unfolding isGoogleSearchUrl_def Let_def s1_def [symmetric] s2_def [symmetric]
      s3_def [symmetric] d_def [symmetric] by auto
  obtain sc where sc: "sc \<in> {[], ''s''}" "drop 4 u = sc @ s1"
    using opt_prefix_split [of "''s''" "drop 4 u"] unfolding s1_def by blast
  obtain w where w: "w \<in> {[], ''www.''}" "drop 3 s1 = w @ s2"
    using opt_prefix_split [of "''www.''" "drop 3 s1"] unfolding s2_def by blast
  have e1: "u = ''http'' @ drop 4 u" using take_prefix_split [OF t(1)] by simp
  have e2: "s1 = ''://'' @ drop 3 s1" using take_prefix_split [OF t(2)] by simp
  have e3: "s2 = ''google.'' @ s3" using take_prefix_split [OF t(3)] unfolding s3_def by simp
  have e4: "s3 = d @ drop (length d) s3" unfolding d_def by (metis append_take_drop_id takeWhile_eq_take)
  have e5: "drop (length d) s3 = ''/search'' @ r" using take_prefix_split [OF t(5)] unfolding r_def by simp
  have az: "list_all is_az_dot d" by (auto simp: d_def list_all_iff dest: set_takeWhileD)
  have "u = ''http'' @ sc @ ''://'' @ w @ ''google.'' @ d @ ''/search'' @ r"
    by (metis e1 sc(2) e2 w(2) e3 e4 e5)
  with sc(1) w(1) t(4) az show ?thesis unfolding google_search_lang_def by blast
qed

lemma broadcast_other: "t \<notin> fst ` set sends \<Longrightarrow> broadcast env sends tabs t = tabs t"
  by (induction sends arbitrary: tabs) (auto simp: broadcast_def)

lemma broadcast_auto_off:
  "\<forall>(t', m) \<in> set sends. m = FwdAutoExtract False \<Longrightarrow> t \<in> fst ` set sends \<Longrightarrow>
   \<not> isAutoExtractEnabled (core (broadcast env sends tabs t))"
proof (induction sends arbitrary: tabs rule: rev_induct)
  case Nil
  then show ?case by simp
next
  case (snoc x sends)
  obtain t' m where x: "x = (t', m)" by (cases x)
  show ?case
  proof (cases "t = t'")
    case True
    with snoc.prems x show ?thesis
      by (simp add: broadcast_def tab_to_content_def content_on_message_def)
  next
    case False
    with snoc x have "t \<in> fst ` set sends" by auto
    with snoc False x show ?thesis by (simp add: broadcast_def)
  qed
qed

subsection \<open>Properties\<close>

text \<open>
  The URL test of the tab listener decides exactly the language of its regular
  expression: \<open>http\<close>, an optional \<open>s\<close>, \<open>://\<close>, an optional \<open>www.\<close>, \<open>google.\<close>, a
  non-empty run of lower-case letters and dots, and \<open>/search\<close>, followed by anything.
\<close>

theorem isGoogleSearchUrl_iff: "isGoogleSearchUrl u \<longleftrightarrow> google_search_lang u"
  using isGoogleSearchUrl_lang lang_isGoogleSearchUrl by blast

text \<open>
  C31. When a tab finishes loading, the worker arms the 1.5 s \<open>EXTRACT_NOW\<close> timer for it
  exactly when its URL is in the language of the Google-search expression and both
  \<open>autoExtract\<close> and \<open>isCollecting\<close> are stored as true; otherwise it arms nothing.
\<close>

theorem onTabUpdated_schedules:
  "onTabUpdated config t status url =
     (if status = Some ''complete'' \<and> (\<exists>u. url = Some u \<and> google_search_lang u) \<and>
         k_autoExtract config = Some True \<and> k_isCollecting config = Some True
      then [(1500, t, ExtractNowMsg)] else [])"
proof -
  have ne: "google_search_lang u \<Longrightarrow> u \<noteq> []" for u by (auto simp: google_search_lang_def)
  have eq: "isGoogleSearchUrl u = google_search_lang u" for u
    using isGoogleSearchUrl_lang lang_isGoogleSearchUrl by blast
  show ?thesis
    using ne by (auto simp: onTabUpdated_def eq truthy_bool_def split: option.splits)
qed

text \<open>
  The URL test is looser than "a Google search page": it accepts
  \<open>https://google.evil.com/search\<close>, since \<open>[a-z.]+\<close> takes any host under a \<open>google.\<close>
  label, while it rejects Google's own \<open>https://scholar.google.com/search\<close>.
\<close>

theorem isGoogleSearchUrl_lookalike:
  "isGoogleSearchUrl ''https://google.evil.com/search?q=x'' \<and> isGoogleSearchUrl ''http://www.google.co.uk/search?q=x'' \<and>
   \<not> isGoogleSearchUrl ''https://scholar.google.com/search?q=x'' \<and> \<not> isGoogleSearchUrl ''https://www.google.com/webhp''"
  by code_simp

end
