(* ===== verification/Navigation.thy ===== *)
theory Navigation
  imports Control
begin

text \<open>
  How the pagination loop of \<open>src/content.js\<close> moves to the next result page:
  \<open>goToNextPage\<close> (lines 727-781) and \<open>waitForNavigation\<close> (783-806). The document is seen
  through two queries: \<open>document.querySelector(selector)\<close> for each candidate selector
  (an element with its \<open>href\<close>, no element, or an exception for a selector the browser
  cannot parse), and the \<open>href\<close>s of \<open>document.querySelectorAll('a[href*="start="]')\<close>.
  The regular expression \<open>/start=(\d+)/\<close> is the leftmost-greedy matcher \<open>start_param\<close>.
  The polling loop of \<open>waitForNavigation\<close> observes the clock and the page at each check;
  it is written with fuel and shown to return within 52 checks.
\<close>

datatype query_result =
    QThrows                    \<comment> \<open>\<open>querySelector\<close> throws (caught by the loop)\<close>
  | QNone                      \<comment> \<open>no element\<close>
  | QElem "js_string option"   \<comment> \<open>the first element and its \<open>href\<close> (\<open>None\<close>: no \<open>href\<close>)\<close>

record nav_dom =
  nd_query :: "js_string \<Rightarrow> query_result"
  nd_start_links :: "js_string list"

datatype nav_action = ClickSelector js_string | ClickLink js_string | NoNextPage

definition nextSelectors :: "int \<Rightarrow> js_string list" where
  \<comment> \<open>\<open>nextSelectors\<close> and the two pushed with \<open>pageNum = currentPaginationPage + 1\<close>\<close>
  \<open>nextSelectors page =
     [''#pnnext'', ''a[aria-label="Next page"]'', ''a[id="pnnext"]'', ''td.navend a'',
      ''a.fl[style*="text-align:left"]'', ''.d6cvqb a[aria-label="Page 2"]'', ''a[aria-label*="Next"]'',
      ''span:contains("Next") a'',
      ''a[aria-label="Page '' @ js_show_int (page + 1) @ ''"]'',
      ''td a[aria-label="Page '' @ js_show_int (page + 1) @ ''"]'']\<close>

fun find_selector :: "nav_dom \<Rightarrow> js_string list \<Rightarrow> js_string option" where
  \<comment> \<open>the \<open>for\<close> loop over the selectors: \<open>if (nextBtn && nextBtn.href)\<close>\<close>
  "find_selector doc [] = None"
| "find_selector doc (sel # sels) =
     (case nd_query doc sel of
        QElem (Some h) \<Rightarrow> if h \<noteq> [] then Some sel else find_selector doc sels
      | _ \<Rightarrow> find_selector doc sels)"

fun param_match :: "js_string \<Rightarrow> js_string \<Rightarrow> js_string option" where
  \<comment> \<open>\<open>s.match(/p(\d+)/)\<close> for a literal \<open>p\<close>: the group of the leftmost match, \<open>\d+\<close> greedy\<close>
  "param_match p [] = None"
| "param_match p (c # cs) =
     (let ds = takeWhile is_09 (drop (length p) (c # cs))
      in if take (length p) (c # cs) = p \<and> ds \<noteq> [] then Some ds else param_match p cs)"

definition start_param :: "js_string \<Rightarrow> js_string option" where
  \<comment> \<open>\<open>href.match(/start=(\d+)/)\<close>\<close>
  "start_param h = param_match ''start='' h"

fun find_start_link :: "int \<Rightarrow> js_string list \<Rightarrow> js_string option" where
  \<comment> \<open>the fallback loop: \<open>parseInt(match[1]) === currentPaginationPage * 10\<close>\<close>
  "find_start_link page [] = None"
| "find_start_link page (h # hs) =
     (case start_param h of
        Some d \<Rightarrow> if js_parseInt d = Some (page * 10) then Some h else find_start_link page hs
      | None \<Rightarrow> find_start_link page hs)"

definition goToNextPage :: "nav_dom \<Rightarrow> int \<Rightarrow> nav_action" where
  \<comment> \<open>\<open>page\<close> is \<open>currentPaginationPage\<close>; a click is followed by \<open>await waitForNavigation()\<close>\<close>
  "goToNextPage doc page =
     (case find_selector doc (nextSelectors page) of
        Some sel \<Rightarrow> ClickSelector sel
      | None \<Rightarrow> (case find_start_link page (nd_start_links doc) of
                   Some h \<Rightarrow> ClickLink h
                 | None \<Rightarrow> NoNextPage))"

record nav_clock =
  nc_start :: int              \<comment> \<open>\<open>startTime = Date.now()\<close>\<close>
  nc_now :: "nat \<Rightarrow> int"      \<comment> \<open>\<open>Date.now()\<close> at the \<open>k\<close>-th call of \<open>checkLoaded\<close>\<close>
  nc_loaded :: "nat \<Rightarrow> bool"  \<comment> \<open>results present and \<open>readyState === 'complete'\<close> at that call\<close>

fun wait_checks :: "nat \<Rightarrow> nav_clock \<Rightarrow> nat \<Rightarrow> nat option" where
  \<comment> \<open>\<open>checkLoaded\<close> from its \<open>k\<close>-th call on, with fuel \<open>n\<close>; \<open>Some k'\<close>: it resolves at call \<open>k'\<close>\<close>
  "wait_checks 0 c k = None"
| "wait_checks (Suc n) c k =
     (if nc_now c k - nc_start c > 10000 then Some k
      else if nc_loaded c k then Some k
      else wait_checks n c (Suc k))"

definition waitForNavigation :: "nav_clock \<Rightarrow> nat option" where
  "waitForNavigation c = wait_checks 52 c 0"

definition clock_ok :: "nav_clock \<Rightarrow> bool" where
  \<comment> \<open>the first check runs no earlier than \<open>startTime\<close>, each later one at least 200 ms after
      the previous (\<open>setTimeout(checkLoaded, 200)\<close>)\<close>
  "clock_ok c \<longleftrightarrow> nc_start c \<le> nc_now c 0 \<and> (\<forall>k. nc_now c k + 200 \<le> nc_now c (Suc k))"

definition digit_match :: "js_string \<Rightarrow> js_string \<Rightarrow> js_string \<Rightarrow> js_string \<Rightarrow> js_string \<Rightarrow> bool" where
  \<comment> \<open>\<open>s = pre @ p @ d @ post\<close> with \<open>d\<close> a non-empty run of digits: a match of \<open>/p(\d+)/\<close>\<close>
  "digit_match p s pre d post \<longleftrightarrow> s = pre @ p @ d @ post \<and> d \<noteq> [] \<and> list_all is_09 d"

abbreviation leftmost_digits :: "js_string \<Rightarrow> js_string \<Rightarrow> js_string \<Rightarrow> bool" where
  \<comment> \<open>\<open>d\<close> is the digit group of the leftmost match of \<open>/p(\d+)/\<close> in \<open>s\<close>, taken greedily\<close>
  "leftmost_digits p s d \<equiv>
     \<exists>pre post. digit_match p s pre d post \<and> (post = [] \<or> \<not> is_09 (hd post)) \<and>
       (\<forall>pre' d' post'. digit_match p s pre' d' post' \<longrightarrow> length pre \<le> length pre')"

subsection \<open>Lemmas\<close>

lemma takeWhile_digits_greedy:
  "list_all is_09 d \<Longrightarrow> (post = [] \<or> \<not> is_09 (hd post)) \<Longrightarrow> takeWhile is_09 (d @ post) = d"
  by (induction d) (auto simp: takeWhile_eq_Nil_iff neq_Nil_conv)

lemma match_at_head:
  "digit_match p s [] d post \<Longrightarrow> take (length p) s = p \<and> takeWhile is_09 (drop (length p) s) \<noteq> []"
  by (cases d) (auto simp: digit_match_def)

lemma head_match:
  assumes "take (length p) s = p" and "takeWhile is_09 (drop (length p) s) \<noteq> []"
  defines "ds \<equiv> takeWhile is_09 (drop (length p) s)"
  shows "digit_match p s [] ds (dropWhile is_09 (drop (length p) s)) \<and>
         (dropWhile is_09 (drop (length p) s) = [] \<or> \<not> is_09 (hd (dropWhile is_09 (drop (length p) s))))"
proof -
  have "s = p @ drop (length p) s" using assms(1) by (metis append_take_drop_id)
  then have "s = p @ ds @ dropWhile is_09 (drop (length p) s)" by (simp add: ds_def)
  moreover have "list_all is_09 ds" by (auto simp: ds_def list_all_iff dest: set_takeWhileD)
  moreover have "dropWhile is_09 (drop (length p) s) = [] \<or> \<not> is_09 (hd (dropWhile is_09 (drop (length p) s)))"
    using hd_dropWhile by blast
  ultimately show ?thesis using assms(2) by (simp add: digit_match_def ds_def)
qed

lemma match_Cons:
  "digit_match p (c # cs) (c # pre) d post \<longleftrightarrow> digit_match p cs pre d post"
  by (simp add: digit_match_def)

lemma match_pre_Cons:
  "digit_match p (c # cs) pre d post \<Longrightarrow> pre \<noteq> [] \<Longrightarrow> \<exists>pre0. pre = c # pre0 \<and> digit_match p cs pre0 d post"
  by (cases pre) (auto simp: digit_match_def)

lemma no_head_match:
  "\<not> (take (length p) s = p \<and> takeWhile is_09 (drop (length p) s) \<noteq> []) \<Longrightarrow> \<not> digit_match p s [] d post"
  using match_at_head by blast

lemma leftmost_at_head:
  assumes "take (length p) s = p" and "takeWhile is_09 (drop (length p) s) \<noteq> []"
  shows "leftmost_digits p s d \<longleftrightarrow> d = takeWhile is_09 (drop (length p) s)"
proof
  assume "leftmost_digits p s d"
  then obtain pre post where m: "digit_match p s pre d post" and g: "post = [] \<or> \<not> is_09 (hd post)"
    and l: "\<forall>pre' d' post'. digit_match p s pre' d' post' \<longrightarrow> length pre \<le> length pre'" by blast
  from l head_match [OF assms] have "pre = []" by fastforce
  with m have "drop (length p) s = d @ post" and "list_all is_09 d" by (auto simp: digit_match_def)
  with g show "d = takeWhile is_09 (drop (length p) s)" by (simp add: takeWhile_digits_greedy)
next
  assume "d = takeWhile is_09 (drop (length p) s)"
  with head_match [OF assms] show "leftmost_digits p s d"
    by (intro exI [of _ "[]"] exI [of _ "dropWhile is_09 (drop (length p) s)"]) auto
qed

lemma leftmost_shift:
  assumes "\<not> (take (length p) (c # cs) = p \<and> takeWhile is_09 (drop (length p) (c # cs)) \<noteq> [])"
  shows "leftmost_digits p (c # cs) d \<longleftrightarrow> leftmost_digits p cs d"
proof
  have nh: "\<And>d' post'. \<not> digit_match p (c # cs) [] d' post'" using no_head_match [OF assms] by blast
  assume "leftmost_digits p (c # cs) d"
  then obtain pre post where m: "digit_match p (c # cs) pre d post" and g: "post = [] \<or> \<not> is_09 (hd post)"
    and l: "\<forall>pre' d' post'. digit_match p (c # cs) pre' d' post' \<longrightarrow> length pre \<le> length pre'" by blast
  from m nh have "pre \<noteq> []" by auto
  with m obtain pre0 where pre: "pre = c # pre0" and m0: "digit_match p cs pre0 d post"
    using match_pre_Cons by blast
  have "\<forall>pre' d' post'. digit_match p cs pre' d' post' \<longrightarrow> length pre0 \<le> length pre'"
  proof (intro allI impI)
    fix pre' d' post' assume "digit_match p cs pre' d' post'"
    then have "digit_match p (c # cs) (c # pre') d' post'" by (simp add: match_Cons)
    with l pre show "length pre0 \<le> length pre'" by fastforce
  qed
  with m0 g show "leftmost_digits p cs d" by blast
next
  have nh: "\<And>d' post'. \<not> digit_match p (c # cs) [] d' post'" using no_head_match [OF assms] by blast
  assume "leftmost_digits p cs d"
  then obtain pre post where m: "digit_match p cs pre d post" and g: "post = [] \<or> \<not> is_09 (hd post)"
    and l: "\<forall>pre' d' post'. digit_match p cs pre' d' post' \<longrightarrow> length pre \<le> length pre'" by blast
  have "\<forall>pre' d' post'. digit_match p (c # cs) pre' d' post' \<longrightarrow> length (c # pre) \<le> length pre'"
  proof (intro allI impI)
    fix pre' d' post' assume m': "digit_match p (c # cs) pre' d' post'"
    with nh have "pre' \<noteq> []" by auto
    with m' obtain pre0 where "pre' = c # pre0" "digit_match p cs pre0 d' post'"
      using match_pre_Cons by blast
    with l show "length (c # pre) \<le> length pre'" by auto
  qed
  with m g show "leftmost_digits p (c # cs) d"
    by (intro exI [of _ "c # pre"] exI [of _ post]) (simp add: match_Cons)
qed

text \<open>
  The matcher of the pagination fallback is the regular expression's leftmost-greedy
  match: \<open>param_match p s\<close> returns \<open>d\<close> exactly when \<open>s = pre @ p @ d @ post\<close> with \<open>d\<close> a
  non-empty run of digits that \<open>post\<close> does not continue, and no match of \<open>p(\d+)\<close>
  starts earlier in \<open>s\<close>.
\<close>

theorem start_param_leftmost_greedy:
  "param_match p s = Some d \<longleftrightarrow>
   (\<exists>pre post. digit_match p s pre d post \<and> (post = [] \<or> \<not> is_09 (hd post)) \<and>
      (\<forall>pre' d' post'. digit_match p s pre' d' post' \<longrightarrow> length pre \<le> length pre'))"
proof (induction p s rule: param_match.induct)
  case (1 p)
  then show ?case by (simp add: digit_match_def)
next
  case (2 p c cs)
  show ?case
  proof (cases "take (length p) (c # cs) = p \<and> takeWhile is_09 (drop (length p) (c # cs)) \<noteq> []")
    case True
    then show ?thesis using leftmost_at_head [of p "c # cs" d] by (auto simp: Let_def)
  next
    case False
    then have "param_match p (c # cs) = param_match p cs" by (simp only: param_match.simps Let_def if_False)
    with "2.IH" [OF refl False] leftmost_shift [OF False] show ?thesis by simp
  qed
qed

lemma clock_ok_now: "clock_ok c \<Longrightarrow> nc_start c + 200 * int k \<le> nc_now c k"
proof (induction k)
  case 0
  then show ?case by (simp add: clock_ok_def)
next
  case (Suc k)
  then have "nc_now c k + 200 \<le> nc_now c (Suc k)" by (simp add: clock_ok_def)
  with Suc show ?case by simp
qed

lemma wait_checks_first:
  "wait_checks n c k = Some j \<Longrightarrow>
     k \<le> j \<and> (10000 < nc_now c j - nc_start c \<or> nc_loaded c j) \<and>
     (\<forall>i. k \<le> i \<and> i < j \<longrightarrow> nc_now c i - nc_start c \<le> 10000 \<and> \<not> nc_loaded c i)"
proof (induction n arbitrary: k)
  case 0
  then show ?case by simp
next
  case (Suc n)
  show ?case
  proof (cases "10000 < nc_now c k - nc_start c \<or> nc_loaded c k")
    case True
    with Suc.prems show ?thesis by (auto split: if_splits)
  next
    case False
    with Suc.prems have "wait_checks n c (Suc k) = Some j" by simp
    from Suc.IH [OF this] have ih: "Suc k \<le> j" "10000 < nc_now c j - nc_start c \<or> nc_loaded c j"
      "\<forall>i. Suc k \<le> i \<and> i < j \<longrightarrow> nc_now c i - nc_start c \<le> 10000 \<and> \<not> nc_loaded c i" by auto
    have "\<forall>i. k \<le> i \<and> i < j \<longrightarrow> nc_now c i - nc_start c \<le> 10000 \<and> \<not> nc_loaded c i"
    proof (intro allI impI)
      fix i assume "k \<le> i \<and> i < j"
      then consider "i = k" | "Suc k \<le> i \<and> i < j" by linarith
      then show "nc_now c i - nc_start c \<le> 10000 \<and> \<not> nc_loaded c i"
        using False ih(3) by cases auto
    qed
    with ih(1,2) show ?thesis by simp
  qed
qed

lemma wait_checks_enough:
  "clock_ok c \<Longrightarrow> k \<le> 51 \<Longrightarrow> 51 - k < n \<Longrightarrow> \<exists>j \<le> 51. wait_checks n c k = Some j"
proof (induction n arbitrary: k)
  case 0
  then show ?case by simp
next
  case (Suc n)
  show ?case
  proof (cases "10000 < nc_now c k - nc_start c \<or> nc_loaded c k")
    case True
    with Suc.prems show ?thesis by auto
  next
    case False
    have "k \<noteq> 51"
    proof
      assume "k = 51"
      with clock_ok_now [OF Suc.prems(1), of k] False show False by simp
    qed
    with Suc.prems have "Suc k \<le> 51" "51 - Suc k < n" by auto
    from Suc.IH [OF Suc.prems(1) this] False show ?thesis by simp
  qed
qed

lemma find_selector_skip:
  "\<forall>sel \<in> set xs. \<forall>h. nd_query doc sel = QElem (Some h) \<longrightarrow> h = [] \<Longrightarrow>
     find_selector doc (xs @ ys) = find_selector doc ys"
  by (induction xs) (auto split: query_result.splits option.splits)

lemma find_selector_none: "(\<forall>s. nd_query doc s = QNone) \<Longrightarrow> find_selector doc sels = None"
  by (induction sels) auto

subsection \<open>Properties\<close>

text \<open>
  C24. \<open>waitForNavigation\<close> always resolves: when each \<open>checkLoaded\<close> runs at least 200 ms
  after the previous one, the promise resolves at one of the first 52 checks, at the first
  check where the results are loaded or more than 10 s have passed since \<open>startTime\<close>.
\<close>

theorem waitForNavigation_returns:
  assumes "clock_ok c"
  shows "\<exists>k \<le> 51. waitForNavigation c = Some k \<and>
           (10000 < nc_now c k - nc_start c \<or> nc_loaded c k) \<and>
           (\<forall>i < k. nc_now c i - nc_start c \<le> 10000 \<and> \<not> nc_loaded c i)"
proof -
  obtain k where k: "k \<le> 51" "wait_checks 52 c 0 = Some k"
    using wait_checks_enough [OF assms, of 0 52] by auto
  with wait_checks_first [OF k(2)] show ?thesis by (auto simp: waitForNavigation_def)
qed

text \<open>
  C35. The pager selector meant for the first page, \<open>.d6cvqb a[aria-label="Page 2"]\<close>,
  comes before the \<open>Page n+1\<close> selectors: on any page of a result list whose pager links
  page 2 and which has none of the five \<open>#pnnext\<close>-style next buttons, \<open>goToNextPage\<close>
  clicks the page 2 link, also on page 3 and later and whatever the \<open>Page n+1\<close> link is,
  so from page 3 on the loop goes back.
\<close>

theorem goToNextPage_goes_back:
  assumes \<open>nd_query doc ''.d6cvqb a[aria-label="Page 2"]'' = QElem (Some h)\<close> and \<open>h \<noteq> []\<close>
    and \<open>\<forall>sel \<in> {''#pnnext'', ''a[aria-label="Next page"]'', ''a[id="pnnext"]'', ''td.navend a'',
                   ''a.fl[style*="text-align:left"]''}. \<forall>h'. nd_query doc sel = QElem (Some h') \<longrightarrow> h' = []\<close>
  shows \<open>goToNextPage doc page = ClickSelector ''.d6cvqb a[aria-label="Page 2"]''\<close>
proof -
  have split: \<open>nextSelectors page =
      [''#pnnext'', ''a[aria-label="Next page"]'', ''a[id="pnnext"]'', ''td.navend a'', ''a.fl[style*="text-align:left"]'']
      @ ''.d6cvqb a[aria-label="Page 2"]'' # drop 6 (nextSelectors page)\<close>
    by (simp add: nextSelectors_def)
  have \<open>find_selector doc (nextSelectors page) = Some ''.d6cvqb a[aria-label="Page 2"]''\<close>
    using assms by (subst split, subst find_selector_skip) simp_all
  then show ?thesis by (simp add: goToNextPage_def)
qed

end



