(* ===== verification/Feedback.thy ===== *)
theory Feedback
  imports Control
begin

text \<open>
  The visual feedback of the content script (\<open>src/content.js\<close>): \<open>showCollectionFeedback\<close>
  (lines 506-545) and \<open>showPaginationFeedback\<close> (812-843). Each inserts a \<open>div\<close> with a fixed
  id, removing the one already there, and arms a timer (2.5 s and 3 s) that removes its own
  element if it is still attached (\<open>feedback.parentNode\<close>). The state is the element each id
  holds, numbered so that an element can be told from a newer one, and the removal timers.
  The text of the collection message omits its leading check-mark glyph.
\<close>

datatype fb_kind = CollectionFb | PaginationFb

record fb_elem =
  fb_serial :: nat
  fb_text :: js_string

record overlays =
  coll_fb :: "fb_elem option"   \<comment> \<open>\<open>#crawlgoogle-feedback\<close> in the document\<close>
  pag_fb :: "fb_elem option"    \<comment> \<open>\<open>#crawlgoogle-pagination-feedback\<close>\<close>
  fb_timers :: "(nat \<times> nat \<times> fb_kind \<times> nat) list"  \<comment> \<open>handle, delay, the element's id and serial\<close>
  fb_next :: nat                \<comment> \<open>next timer handle and element serial\<close>

definition overlays_init :: overlays where
  "overlays_init = \<lparr>coll_fb = None, pag_fb = None, fb_timers = [], fb_next = 0\<rparr>"

definition fb_slot :: "fb_kind \<Rightarrow> overlays \<Rightarrow> fb_elem option" where
  "fb_slot k ov = (case k of CollectionFb \<Rightarrow> coll_fb ov | PaginationFb \<Rightarrow> pag_fb ov)"

definition set_slot :: "fb_kind \<Rightarrow> fb_elem option \<Rightarrow> overlays \<Rightarrow> overlays" where
  "set_slot k e ov = (case k of CollectionFb \<Rightarrow> ov\<lparr>coll_fb := e\<rparr> | PaginationFb \<Rightarrow> ov\<lparr>pag_fb := e\<rparr>)"

definition show_feedback :: "fb_kind \<Rightarrow> nat \<Rightarrow> js_string \<Rightarrow> overlays \<Rightarrow> overlays" where
  \<comment> \<open>\<open>existing.remove()\<close>, \<open>appendChild(feedback)\<close>, \<open>setTimeout(..., delay)\<close>\<close>
  "show_feedback k delay msg ov =
     (let n = fb_next ov
      in (set_slot k (Some \<lparr>fb_serial = n, fb_text = msg\<rparr>) ov)
           \<lparr>fb_timers := fb_timers ov @ [(n, delay, k, n)], fb_next := Suc n\<rparr>)"

definition showCollectionFeedback :: "nat \<Rightarrow> overlays \<Rightarrow> overlays" where
  "showCollectionFeedback count ov =
     show_feedback CollectionFb 2500 (''+'' @ js_show_int (int count) @ '' domains collected'') ov"

definition showPaginationFeedback :: "js_string \<Rightarrow> overlays \<Rightarrow> overlays" where
  "showPaginationFeedback message ov = show_feedback PaginationFb 3000 message ov"

definition fire_fb :: "nat \<Rightarrow> overlays \<Rightarrow> overlays" where
  \<comment> \<open>the removal timer: \<open>if (feedback.parentNode) feedback.remove()\<close>\<close>
  "fire_fb h ov =
     (case find (\<lambda>(h', _). h' = h) (fb_timers ov) of
        None \<Rightarrow> ov
      | Some (_, _, k, n) \<Rightarrow>
          (let ov1 = ov\<lparr>fb_timers := filter (\<lambda>(h', _). h' \<noteq> h) (fb_timers ov)\<rparr>
           in case fb_slot k ov1 of
                Some e \<Rightarrow> if fb_serial e = n then set_slot k None ov1 else ov1
              | None \<Rightarrow> ov1))"

fun apply_feedback :: "control_out \<Rightarrow> overlays \<Rightarrow> overlays" where
  \<comment> \<open>the feedback calls among the content script's outputs\<close>
  "apply_feedback (CEff (ShowFeedback n)) ov = showCollectionFeedback n ov"
| "apply_feedback (PagFeedback m) ov = showPaginationFeedback m ov"
| "apply_feedback _ ov = ov"

datatype fb_event = FbOut control_out | FbFire nat

fun fb_step :: "fb_event \<Rightarrow> overlays \<Rightarrow> overlays" where
  "fb_step (FbOut x) ov = apply_feedback x ov"
| "fb_step (FbFire h) ov = fire_fb h ov"

definition fb_inv :: "overlays \<Rightarrow> bool" where
  \<comment> \<open>handles are distinct and fresh, and each element shown has its own removal timer armed\<close>
  "fb_inv ov \<longleftrightarrow>
     distinct (map fst (fb_timers ov)) \<and> (\<forall>(h, d, k, n) \<in> set (fb_timers ov). h < fb_next ov \<and> h = n) \<and>
     (\<forall>k e. fb_slot k ov = Some e \<longrightarrow> fb_serial e < fb_next ov \<and>
        (\<exists>d. (fb_serial e, d, k, fb_serial e) \<in> set (fb_timers ov)))"

subsection \<open>Lemmas\<close>

lemma slot_simps [simp]:
  "fb_slot k (set_slot k' e ov) = (if k = k' then e else fb_slot k ov)"
  "fb_slot k (ov\<lparr>fb_timers := t\<rparr>) = fb_slot k ov"
  "fb_slot k (ov\<lparr>fb_timers := t, fb_next := m\<rparr>) = fb_slot k ov"
  "fb_timers (set_slot k e ov) = fb_timers ov"
  "fb_next (set_slot k e ov) = fb_next ov"
  "set_slot k e (ov\<lparr>fb_timers := t\<rparr>) = (set_slot k e ov)\<lparr>fb_timers := t\<rparr>"
  by (cases k; cases k'; simp add: fb_slot_def set_slot_def)+

lemma fb_inv_init: "fb_inv overlays_init"
  by (simp add: fb_inv_def overlays_init_def fb_slot_def split: fb_kind.splits)

lemma show_feedback_inv: "fb_inv ov \<Longrightarrow> fb_inv (show_feedback k d msg ov)"
  by (fastforce simp: fb_inv_def show_feedback_def Let_def)

lemma find_timer_handle: "find (\<lambda>(h', _). h' = h) ts = Some (h0, x) \<Longrightarrow> h0 = h"
  by (induction ts) (auto split: if_splits)

lemma find_timer_unique:
  assumes "find (\<lambda>(h', _). h' = h) ts = Some (h0, d0, k0, n0)" and "distinct (map fst ts)"
    and "(h, d, k, n) \<in> set ts"
  shows "h0 = h \<and> d0 = d \<and> k0 = k \<and> n0 = n"
proof -
  have m: "(h0, d0, k0, n0) \<in> set ts" using find_Some_mem [OF assms(1)] by auto
  have "h0 = h" by (rule find_timer_handle [OF assms(1)])
  with m assms(2,3) show ?thesis by (metis (no_types, lifting) distinct_map fst_conv inj_on_contraD prod.inject)
qed

lemma fire_fb_cases:
  "fire_fb h ov = ov \<or>
   (\<exists>d k n. find (\<lambda>(h', _). h' = h) (fb_timers ov) = Some (h, d, k, n) \<and>
      fire_fb h ov = (let ov1 = ov\<lparr>fb_timers := filter (\<lambda>(h', _). h' \<noteq> h) (fb_timers ov)\<rparr>
                      in case fb_slot k ov1 of Some e \<Rightarrow> if fb_serial e = n then set_slot k None ov1 else ov1
                                              | None \<Rightarrow> ov1))"
proof (cases "find (\<lambda>(h', _). h' = h) (fb_timers ov)")
  case None
  then show ?thesis by (simp add: fire_fb_def)
next
  case (Some x)
  obtain h0 d k n where x: "x = (h0, d, k, n)" by (cases x) auto
  with Some have "h0 = h" using find_timer_handle by fastforce
  with Some x show ?thesis by (simp add: fire_fb_def)
qed

lemma fire_fb_keeps_other:
  assumes inv: "fb_inv ov" and e: "fb_slot k ov = Some e" and ne: "h \<noteq> fb_serial e"
  shows "fb_slot k (fire_fb h ov) = Some e"
  using fire_fb_cases [of h ov]
proof
  assume "fire_fb h ov = ov" with e show ?thesis by simp
next
  assume "\<exists>d k' n. find (\<lambda>(h', _). h' = h) (fb_timers ov) = Some (h, d, k', n) \<and>
      fire_fb h ov = (let ov1 = ov\<lparr>fb_timers := filter (\<lambda>(h', _). h' \<noteq> h) (fb_timers ov)\<rparr>
                      in case fb_slot k' ov1 of Some e \<Rightarrow> if fb_serial e = n then set_slot k' None ov1 else ov1
                                              | None \<Rightarrow> ov1)"
  then obtain d k' n where f: "find (\<lambda>(h', _). h' = h) (fb_timers ov) = Some (h, d, k', n)"
    and r: "fire_fb h ov = (let ov1 = ov\<lparr>fb_timers := filter (\<lambda>(h', _). h' \<noteq> h) (fb_timers ov)\<rparr>
                      in case fb_slot k' ov1 of Some e \<Rightarrow> if fb_serial e = n then set_slot k' None ov1 else ov1
                                              | None \<Rightarrow> ov1)" by blast
  from f have "(h, d, k', n) \<in> set (fb_timers ov)" by (auto dest: find_Some_mem)
  with inv have "n = h" by (auto simp: fb_inv_def)
  with ne e r show ?thesis by (auto simp: Let_def split: option.splits)
qed

lemma fb_inv_intro:
  "distinct (map fst (fb_timers ov)) \<Longrightarrow> (\<forall>(h, d, k, n) \<in> set (fb_timers ov). h < fb_next ov \<and> h = n) \<Longrightarrow>
   (\<And>k e. fb_slot k ov = Some e \<Longrightarrow>
      fb_serial e < fb_next ov \<and> (\<exists>d. (fb_serial e, d, k, fb_serial e) \<in> set (fb_timers ov))) \<Longrightarrow>
   fb_inv ov"
  by (simp add: fb_inv_def)

lemma fire_fb_inv: "fb_inv ov \<Longrightarrow> fb_inv (fire_fb h ov)"
  using fire_fb_cases [of h ov]
proof
  assume "fb_inv ov" "fire_fb h ov = ov" then show ?thesis by simp
next
  assume inv: "fb_inv ov" and "\<exists>d k n. find (\<lambda>(h', _). h' = h) (fb_timers ov) = Some (h, d, k, n) \<and>
      fire_fb h ov = (let ov1 = ov\<lparr>fb_timers := filter (\<lambda>(h', _). h' \<noteq> h) (fb_timers ov)\<rparr>
                      in case fb_slot k ov1 of Some e \<Rightarrow> if fb_serial e = n then set_slot k None ov1 else ov1
                                              | None \<Rightarrow> ov1)"
  then obtain d k n where f: "find (\<lambda>(h', _). h' = h) (fb_timers ov) = Some (h, d, k, n)"
    and r: "fire_fb h ov = (let ov1 = ov\<lparr>fb_timers := filter (\<lambda>(h', _). h' \<noteq> h) (fb_timers ov)\<rparr>
                      in case fb_slot k ov1 of Some e \<Rightarrow> if fb_serial e = n then set_slot k None ov1 else ov1
                                              | None \<Rightarrow> ov1)" by blast
  have dist: "distinct (map fst (fb_timers ov))" using inv by (simp add: fb_inv_def)
  from f have mem: "(h, d, k, n) \<in> set (fb_timers ov)" by (auto dest: find_Some_mem)
  with inv have hn: "n = h" by (auto simp: fb_inv_def)
  let ?ov1 = "ov\<lparr>fb_timers := filter (\<lambda>(h', _). h' \<noteq> h) (fb_timers ov)\<rparr>"
  have kept: "(fb_serial e, d', k', fb_serial e) \<in> set (fb_timers ?ov1)"
    if "fb_slot k' ov = Some e" "fb_serial e \<noteq> h" "(fb_serial e, d', k', fb_serial e) \<in> set (fb_timers ov)" for k' e d'
    using that by simp
  have same: "k' = k" if "fb_slot k' ov = Some e" "fb_serial e = h" "(fb_serial e, d', k', fb_serial e) \<in> set (fb_timers ov)" for k' e d'
    using find_timer_unique [OF f dist, of d' k' "fb_serial e"] that by simp
  have inv1: "distinct (map fst (fb_timers ?ov1)) \<and> (\<forall>(h', d, k, n) \<in> set (fb_timers ?ov1). h' < fb_next ?ov1 \<and> h' = n)"
    using inv by (auto simp: fb_inv_def distinct_map_filter)
  show ?thesis
  proof (cases "fb_slot k ?ov1")
    case None
    with r have res: "fire_fb h ov = ?ov1" by (simp add: Let_def)
    show ?thesis unfolding res
    proof (rule fb_inv_intro)
      fix k' e assume s: "fb_slot k' ?ov1 = Some e"
      then have e: "fb_slot k' ov = Some e" by simp
      with inv obtain d' where "fb_serial e < fb_next ov" "(fb_serial e, d', k', fb_serial e) \<in> set (fb_timers ov)"
        unfolding fb_inv_def by blast
      moreover have "fb_serial e \<noteq> h"
      proof
        assume "fb_serial e = h"
        with same [OF e this] \<open>(fb_serial e, d', k', fb_serial e) \<in> set (fb_timers ov)\<close> have "k' = k" by simp
        with None s show False by simp
      qed
      ultimately show "fb_serial e < fb_next ?ov1 \<and> (\<exists>d. (fb_serial e, d, k', fb_serial e) \<in> set (fb_timers ?ov1))"
        using kept [OF e] by auto
    qed (use inv1 in auto)
  next
    case (Some e0)
    show ?thesis
    proof (cases "fb_serial e0 = n")
      case True
      with r Some have res: "fire_fb h ov = set_slot k None ?ov1" by (simp add: Let_def)
      show ?thesis unfolding res
      proof (rule fb_inv_intro)
        fix k' e assume s: "fb_slot k' (set_slot k None ?ov1) = Some e"
        then have "k' \<noteq> k" "fb_slot k' ov = Some e" by (auto split: if_splits)
        with inv obtain d' where "fb_serial e < fb_next ov" "(fb_serial e, d', k', fb_serial e) \<in> set (fb_timers ov)"
          unfolding fb_inv_def by blast
        with same [of k' e d'] \<open>k' \<noteq> k\<close> \<open>fb_slot k' ov = Some e\<close> kept [of k' e d']
        show "fb_serial e < fb_next (set_slot k None ?ov1) \<and>
              (\<exists>d. (fb_serial e, d, k', fb_serial e) \<in> set (fb_timers (set_slot k None ?ov1)))" by auto
      qed (use inv1 in auto)
    next
      case False
      with r Some have res: "fire_fb h ov = ?ov1" by (simp add: Let_def)
      show ?thesis unfolding res
      proof (rule fb_inv_intro)
        fix k' e assume s: "fb_slot k' ?ov1 = Some e"
        then have e: "fb_slot k' ov = Some e" by simp
        with inv obtain d' where "fb_serial e < fb_next ov" "(fb_serial e, d', k', fb_serial e) \<in> set (fb_timers ov)"
          unfolding fb_inv_def by blast
        moreover have "fb_serial e \<noteq> h"
        proof
          assume "fb_serial e = h"
          with same [OF e this] \<open>(fb_serial e, d', k', fb_serial e) \<in> set (fb_timers ov)\<close> have "k' = k" by simp
          with Some s False hn \<open>fb_serial e = h\<close> show False by simp
        qed
        ultimately show "fb_serial e < fb_next ?ov1 \<and> (\<exists>d. (fb_serial e, d, k', fb_serial e) \<in> set (fb_timers ?ov1))"
          using kept [OF e] by auto
      qed (use inv1 in auto)
    qed
  qed
qed

lemma fire_fb_own:
  assumes inv: "fb_inv ov" and e: "fb_slot k ov = Some e"
  shows "fb_slot k (fire_fb (fb_serial e) ov) = None"
proof -
  let ?h = "fb_serial e"
  from inv e obtain d where t: "(?h, d, k, ?h) \<in> set (fb_timers ov)" unfolding fb_inv_def by blast
  have dist: "distinct (map fst (fb_timers ov))" using inv by (simp add: fb_inv_def)
  from t obtain x where f: "find (\<lambda>(h', _). h' = ?h) (fb_timers ov) = Some x"
    by (metis (mono_tags, lifting) case_prod_conv find_None_iff not_Some_eq)
  obtain h0 d0 k0 n0 where x: "x = (h0, d0, k0, n0)" by (cases x) auto
  from find_timer_unique [OF f [unfolded x] dist t] have "x = (?h, d, k, ?h)" using x by simp
  with f e show ?thesis by (simp add: fire_fb_def Let_def)
qed

lemma fb_step_inv: "fb_inv ov \<Longrightarrow> fb_inv (fb_step ev ov)"
proof (cases ev)
  case (FbOut x)
  assume inv: "fb_inv ov"
  with FbOut show ?thesis
    by (cases "(x, ov)" rule: apply_feedback.cases)
       (simp_all add: showCollectionFeedback_def showPaginationFeedback_def show_feedback_inv)
qed (simp add: fire_fb_inv)

lemma fb_run_inv: "fb_inv ov \<Longrightarrow> fb_inv (fold fb_step evs ov)"
  by (induction evs arbitrary: ov) (simp_all add: fb_step_inv)

subsection \<open>Properties\<close>

text \<open>
  C22. Every feedback overlay on the page has its own removal timer armed: along any sequence
  of feedback calls and timer expiries, timer handles stay distinct and each element still
  attached under either id has a pending timer that will remove it.
\<close>

theorem feedback_always_removable:
  "fb_inv (fold fb_step evs overlays_init)"
  by (rule fb_run_inv [OF fb_inv_init])

text \<open>
  C23. A removal timer only removes its own element: when an overlay is shown, the expiry of
  its own timer removes it, and the expiry of any other timer, in particular the timer of an
  older overlay it replaced, leaves it in place.
\<close>

theorem fire_fb_removes_only_own:
  assumes "fb_inv ov" and "fb_slot k ov = Some e"
  shows "fb_slot k (fire_fb h ov) = (if h = fb_serial e then None else Some e)"
  using fire_fb_own [OF assms] fire_fb_keeps_other [OF assms] by auto

end


