(* ===== verification/Spec2Isabelle.thy ===== *)
theory Spec2Isabelle
  imports Extractor Store Delivery DeliveryAsync Popup Control Tabs Navigation Feedback
begin

text \<open>
  \<^bold>\<open>A verification library for the crawlgoogle browser extension.\<close>

  \<^bold>\<open>The program.\<close> A content script on Google result pages (\<open>src/content.js\<close>)
  extracts candidate domains or full URLs from the page. It checks them with
  \<open>isValidDomain\<close>, filters out what it already reported in this session, stores them
  with \<open>saveDomains\<close>, and sends each new batch to the background worker
  (\<open>src/background.js\<close>, message \<open>SEND_TO_VPS\<close>). The worker POSTs the batch to a
  collector (HTTP first, then HTTPS). It keeps what could not be delivered in
  \<open>pendingDomains\<close> and retries with an exponential backoff. The content script also runs
  an auto-pagination loop that clicks "next" and extracts each page. The popup
  (\<open>src/popup.js\<close>) configures the endpoint, starts and stops collection and pagination,
  and shows counters. The worker forwards the popup's switches to every Google tab and asks
  a freshly loaded search tab to extract. The three scripts share \<open>chrome.storage.local\<close>.

  \<^bold>\<open>Theories and their correspondence to the code.\<close>
  \<^item> \<open>Prelude\<close>: the JavaScript string operations the code uses (\<open>startsWith\<close>, \<open>endsWith\<close>,
    \<open>includes\<close>, \<open>split\<close>, \<open>trim\<close>, \<open>toLowerCase\<close>, \<open>join\<close>, \<open>new Set\<close>) on \<open>string\<close>, and
    \<open>parseInt\<close> (sign, \<open>0x\<close>, digits, \<open>NaN\<close> as \<open>None\<close>), number printing and \<open>x || d\<close> on
    numbers. A character is a byte, so the model is exact on ASCII text. The theory also
    holds the shared lemmas (collection \<open>js_simps\<close>, \<open>parseInt_show_nat\<close>).
  \<^item> \<open>Schema\<close>: the storage keys as the record \<open>storage\<close> of optional fields,
    \<open>onInstalled\<close> (background.js 19-30), and JavaScript truthiness of the values.
  \<^item> \<open>Validator\<close>: \<open>BLACKLIST\<close>, \<open>isValidDomain\<close> (content.js 16-26, 421-455). The anchored
    domain regular expression is \<open>domain_regex\<close>, the label check it performs.
  \<^item> \<open>Normalizer\<close>: \<open>normalizeDomain\<close> (599-620) and \<open>normalizeUrl\<close> (622-649). The browser's
    \<open>new URL\<close>, \<open>URLSearchParams.toString\<close> and \<open>decodeURIComponent\<close> are the fields of
    the record \<open>platform\<close>, and every theorem holds for all of them.
  \<^item> \<open>Extractor\<close>: \<open>extractFromUrl\<close> (349-380), \<open>extractDomainFromText\<close> (389-419) and
    \<open>extractDomains\<close> (142-346). The thirteen strategies are the datatype \<open>strategy\<close>,
    run in the source's order over a \<open>pass\<close> record. The results of
    \<open>document.querySelectorAll\<close> are a \<open>snapshot\<close> of the page.
  \<^item> \<open>Store\<close>: \<open>saveDomains\<close> (457-489) with an insertion-ordered map (\<open>merge_keys\<close>), and
    \<open>isDuplicate\<close> (652-662), which the code never calls.
  \<^item> \<open>Delivery\<close>: the worker with each handler one atomic step. \<open>bg_state\<close> holds the
    variables of lines 4-9 plus the storage fields \<open>sentDomains\<close> and \<open>useHttps\<close>; timers
    are an explicit list of (handle, delay, task). \<open>bg_step\<close> dispatches the messages,
    timer expiries and the 60 s sweep (lines 345-350); \<open>bg_run\<close> runs a list of events.
  \<^item> \<open>DeliveryAsync\<close>: the same worker with \<open>sendDomainsToVPS\<close> as a coroutine. A call
    (\<open>calls\<close>, program counter \<open>send_pc\<close>) stops at each \<open>await\<close> of lines 94-153 and
    resumes on the event \<open>AResume i\<close>, interleaved with any other event. Storage reads
    take their value when issued.
  \<^item> \<open>Control\<close>: the content script's module state (\<open>content_script\<close>, lines 8-33), \<open>init\<close>
    after its storage read (\<open>content_init\<close>), the message listener (\<open>content_on_message\<close>,
    64-110), \<open>startAutoExtract\<close> (547-566) with its observers and debounce timer, the
    scroll, popstate, hashchange and interval triggers (\<open>content_step\<close>, 568-596), and
    \<open>startAutoPagination\<close> (665-725) as a coroutine per call (\<open>loops\<close>, \<open>loop_pc\<close>).
    The \<open>await goToNextPage()\<close> is an output \<open>NavigateNext i\<close> answered by the event
    \<open>CNavDone i found\<close>; \<open>Navigation\<close> computes that answer from the page.
  \<^item> \<open>Popup\<close>: \<open>isValidHostname\<close> (318-332), every listener and callback of the popup
    (\<open>onSaveConfig\<close>, \<open>onConfigReply\<close>, \<open>onStopClick\<close>, \<open>onStartClick\<close>, \<open>onClearClick\<close>,
    the pagination buttons, \<open>popup_on_message\<close>) and the rendering helpers, over a view
    record (\<open>popup_view\<close>) of what the DOM shows and the stored configuration;
    \<open>popup_step\<close> dispatches the events. The event \<open>StorageRejected\<close> runs a handler whose
    \<open>chrome.storage.local\<close> call rejects up to that call and then its \<open>catch\<close>
    (\<open>onStorageFailure\<close>, \<open>onSaveConfigRejected\<close> and its siblings).
  \<^item> \<open>Tabs\<close>: \<open>notifyAllTabs\<close> (284-315), the \<open>tabs.onUpdated\<close> listener (318-342) with its
    URL regular expression as the matcher \<open>isGoogleSearchUrl\<close>, and \<open>broadcast\<close>, the tabs'
    content scripts handling what was sent.
  \<^item> \<open>Navigation\<close>: \<open>goToNextPage\<close> (727-781) over the answers of the document queries
    (\<open>nav_dom\<close>; a selector the browser rejects, such as \<open>span:contains\<close>, answers
    \<open>QThrows\<close> and is skipped by the \<open>catch\<close>), its selector list \<open>nextSelectors\<close> and the
    \<open>start=\<close> fallback with \<open>/start=(\d+)/\<close> as the leftmost-greedy matcher \<open>param_match\<close>;
    \<open>waitForNavigation\<close> (783-806) as the polling loop \<open>wait_checks\<close> over the clock and
    page state each \<open>checkLoaded\<close> observes (\<open>nav_clock\<close>).
  \<^item> \<open>Feedback\<close>: \<open>showCollectionFeedback\<close> (506-545) and \<open>showPaginationFeedback\<close>
    (812-843): the element each id holds (\<open>overlays\<close>, with a serial per created element)
    and the removal timers, whose callback removes the element it captured only while it
    is still attached; \<open>fb_step\<close> applies the feedback calls among the content script's
    outputs and the timer expiries.
  \<^item> This theory: \<open>extract_step\<close> (a batch's effects applied to the stored list and to the
    worker), \<open>save_and_test\<close> (the \<open>CONFIG_UPDATED\<close> round trip), \<open>worker_config\<close> (the
    endpoint the worker reads), \<open>popup_to_tabs\<close> (popup messages forwarded to every tab),
    fixtures, scenarios and the witnesses.

  \<^bold>\<open>What is proved.\<close>
  \<^item> Delivery, atomic and interleaved: no submitted item is lost along any run
    (\<open>bg_run_no_loss\<close>, \<open>async_no_loss\<close>); the backoff delay stays within 2000 to 30000 ms
    with at most one retry timer (\<open>bg_run_backoff_safe\<close>, \<open>async_backoff_safe\<close>); a call run
    alone refines the atomic send (\<open>async_send_refines\<close>); the outcome of a send on every
    branch; the periodic sweep delivers the whole queue once the collector answers
    (\<open>periodic_sweep_delivers\<close>); for any number \<open>k + 1\<close> of failed sweeps the delay is
    \<open>min (d * 2 ^ (k + 1)) 30000\<close> and the one retry timer waits \<open>min (d * 2 ^ k) 30000\<close>
    (\<open>failed_sweeps_backoff\<close>). Both no-loss theorems take the worker's storage reads to
    succeed (see below).
  \<^item> Content script: a pagination loop ends within \<open>3 * (maxPages - 1) + 3\<close> of its own
    events and reports completion (\<open>start_pagination_finishes\<close>); while collection is off
    nothing reaches storage or the worker (\<open>content_run_stopped\<close>).
  \<^item> Navigation: \<open>waitForNavigation\<close> always resolves, at the first check where the page
    is loaded or the 10 s timeout has passed (\<open>waitForNavigation_returns\<close>). The lemma
    \<open>start_param_leftmost_greedy\<close> checks that the matcher \<open>param_match\<close> is the regular
    expression's leftmost-greedy match, a check of the model rather than of the code.
  \<^item> Feedback: every attached overlay keeps a removal timer of its own
    (\<open>feedback_always_removable\<close>) and a timer never removes the newer overlay that
    replaced its own (\<open>fire_fb_removes_only_own\<close>).
  \<^item> Extraction: a batch is fresh and duplicate-free, a second extraction reports nothing,
    the rate limit holds, and in domain mode everything reported is valid.
  \<^item> Storage: keys are distinct and non-empty, saving is idempotent, nothing with a usable
    key is lost.
  \<^item> Validators: \<open>isValidDomain\<close> and \<open>isValidHostname\<close> are each characterised exactly;
    the lemma \<open>isGoogleSearchUrl_iff\<close> checks that the tab URL matcher decides the
    expression's language.
  \<^item> Normalizer: \<open>normalizeDomain\<close> is correct and idempotent on the decorated forms of
    valid domains; a URL parameter never changes a URL key exactly when its lower-cased
    name is one of the eleven tracking names (\<open>url_key_drops_tracking\<close>).
  \<^item> Popup: the stored endpoint is always valid; save, reopen, save is stable; a rejected
    storage call leaves the store as it was and sends nothing (\<open>storage_failure_no_effect\<close>).
  \<^item> Together: a save the popup accepts configures the worker and the next content script;
    Stop reaches every tab; the save-and-test round trip; end-to-end delivery.
  \<^item> Findings, each a theorem: two sends in flight at once, and a lost update of the sent
    counter for any state and batches (\<open>sent_counter_lost_update\<close>); two pagination loops
    that both navigate after stop and start from any state where a call waits on its delay
    (\<open>pagination_stop_start_two_calls\<close>), and the page counter reset by a second start;
    observers that accumulate; \<open>1234.5.6.7\<close> accepted as a host and port 0 saved as 9876; a tab URL test that accepts \<open>google.evil.com\<close>; the Google substring
    filter; \<open>normalizeDomain\<close> not idempotent; \<open>http\<close> inside domains; raw-string session
    filter; a mode switch deleting stored URLs; the probe resetting the backoff; duplicate
    delivery of a reply that is not JSON; \<open>goToNextPage\<close> clicking the page 2 link on any
    page whose pager shows it without a next button (\<open>goToNextPage_goes_back\<close>); a
    rejected write of the mode switch that leaves the switch showing a mode that storage
    and the content scripts do not use (\<open>mode_switch_rejected_diverges\<close>).

  \<^bold>\<open>Bounds and fuel.\<close> All loops of the code are structural recursion over lists, and runs
  recurse on the event list. Two drivers take fuel because they resume one coroutine
  until it returns: \<open>drive_call\<close> (a send needs at most six resumptions: configuration,
  two fetches, preference write, counter read and write) and \<open>drive\<close> (a pagination call
  takes at most three of its own events per page: delay, navigation, load, with
  \<open>loop_measure\<close> decreasing on each). The theorems state that this fuel suffices, not
  only that a result is right when one comes. \<open>wait_checks\<close> takes fuel because
  \<open>checkLoaded\<close> re-arms itself until the page loads: 52 checks suffice when checks are at
  least 200 ms apart (\<open>clock_ok\<close>), since the 52nd runs more than 10 s after the start
  and resolves on the timeout. Timer handles are fresh because the handle
  counters only grow.

  \<^bold>\<open>Not modelled.\<close>
  \<^item> The rest of the DOM: the popup's HTML and \<open>escapeHtml\<close> (the view is a record of
    the texts and flags shown), the overlays' styling and animation, the collection
    message's check-mark glyph; the click itself and the page the browser then loads.
  \<^item> \<open>testConnection\<close> and the storage merges of \<open>saveDomains\<close> as interleaved coroutines:
    each is one step.
  \<^item> A rejected storage read in the worker: \<open>sendDomainsToVPS\<close> awaits
    \<open>chrome.storage.local.get\<close> (background.js 94) outside its \<open>try\<close>, so a rejection there
    drops the batch, which may be the whole queue \<open>retryPendingDomains\<close> has just taken.
    The worker models take that read to succeed, and the no-loss theorems hold under that
    assumption. The popup's rejected storage calls are modelled (\<open>StorageRejected\<close>).
  \<^item> The browser library (URL parsing, \<open>fetch\<close>, \<open>chrome.tabs\<close> queries, which selectors
    \<open>querySelector\<close> accepts): taken as parameters or as the environment of the steps.
\<close>

section \<open>The content script and the worker together\<close>

record system =
  sys_content :: content_state
  sys_stored :: "js_string list"
  sys_bg :: bg_state

fun apply_content_effect :: "platform \<Rightarrow> bg_env \<Rightarrow> content_effect \<Rightarrow> system \<times> bg_effect list
                              \<Rightarrow> system \<times> bg_effect list" where
  \<comment> \<open>\<open>saveDomains(uniqueNewDomains)\<close> and \<open>sendToVPS(uniqueNewDomains)\<close>, whose message the
      worker's \<open>SEND_TO_VPS\<close> handler receives\<close>
  "apply_content_effect pf env (SaveDomains ds) (sy, out) =
     (sy\<lparr>sys_stored := saveDomains pf (collectFullUrl (sys_content sy)) (sys_stored sy) ds\<rparr>, out)"
| "apply_content_effect pf env (SendToVPSMsg ds) (sy, out) =
     (if ds = [] then (sy, out)
      else let (b', out') = bg_step env (SendToVps ds) (sys_bg sy) in (sy\<lparr>sys_bg := b'\<rparr>, out @ out'))"
| "apply_content_effect pf env (DomainsExtracted n ds) (sy, out) = (sy, out)"
| "apply_content_effect pf env (ShowFeedback n) (sy, out) = (sy, out)"

definition extract_step :: "platform \<Rightarrow> bg_env \<Rightarrow> int \<Rightarrow> page \<Rightarrow> system \<Rightarrow> system \<times> bg_effect list" where
  "extract_step pf env now pg sy =
     (let (cs', batch, effs) = extractDomains pf now pg (sys_content sy)
      in fold (apply_content_effect pf env) effs (sy\<lparr>sys_content := cs'\<rparr>, []))"

section \<open>The popup, the worker and the tabs together\<close>

definition worker_config :: "storage \<Rightarrow> vps_config" where
  \<comment> \<open>the endpoint \<open>sendDomainsToVPS\<close> reads with \<open>chrome.storage.local.get(['vpsIp', 'vpsPort'])\<close>;
      a negative port, which the popup never stores, would read as 0 here\<close>
  "worker_config st = \<lparr>vpsIp = (case k_vpsIp st of Some s \<Rightarrow> s | None \<Rightarrow> []),
                       vpsPort = nat (js_or_num (k_vpsPort st) 0)\<rparr>"

fun test_reply :: "bg_effect list \<Rightarrow> config_reply" where
  \<comment> \<open>\<open>sendResponse(result)\<close> of the \<open>CONFIG_UPDATED\<close> case: the result of \<open>testConnection\<close>\<close>
  "test_reply [] = ReplyLastError"
| "test_reply (TestResult r # es) = ReplyResult r"
| "test_reply (e # es) = test_reply es"

definition save_and_test :: "bg_env \<Rightarrow> popup_state \<Rightarrow> bg_state \<Rightarrow> popup_state \<times> bg_state \<times> bg_effect list" where
  \<comment> \<open>the Save button: \<open>saveConfig\<close>, the worker's \<open>CONFIG_UPDATED\<close> case, and the popup's callback\<close>
  "save_and_test env ps s =
     (case onSaveConfig ps of
        (ps1, ToRuntime (ConfigUpdatedMsg ip port) # _) \<Rightarrow>
          (let (s1, eff) = bg_step env ConfigUpdated s in (onConfigReply ip port (test_reply eff) ps1, s1, eff))
      | (ps1, _) \<Rightarrow> (ps1, s, []))"

fun worker_forward :: "popup_out \<Rightarrow> tab_msg option" where
  \<comment> \<open>the worker's \<open>AUTO_EXTRACT_CHANGED\<close> and \<open>COLLECT_MODE_CHANGED\<close> cases: \<open>notifyAllTabs(message)\<close>\<close>
  "worker_forward (ToRuntime (AutoExtractChangedMsg b)) = Some (FwdAutoExtract b)"
| "worker_forward (ToRuntime (CollectModeChangedMsg b)) = Some (FwdCollectMode b)"
| "worker_forward _ = None"

definition popup_to_tabs :: "cenv \<Rightarrow> popup_event \<Rightarrow> nat list option \<Rightarrow> popup_state \<Rightarrow> (nat \<Rightarrow> content_script)
                             \<Rightarrow> popup_state \<times> (nat \<Rightarrow> content_script)" where
  \<comment> \<open>a popup event, the worker forwarding what the popup sent, and the tabs' content scripts
      handling it; \<open>q\<close> is the answer of \<open>chrome.tabs.query\<close>\<close>
  "popup_to_tabs env e q ps tabs =
     (let (ps1, out) = popup_step e ps;
          sends = concat (map (\<lambda>x. case worker_forward x of Some m \<Rightarrow> notifyAllTabs q m | None \<Rightarrow> []) out)
      in (ps1, broadcast env sends tabs))"

section \<open>Fixtures\<close>

definition empty_snapshot :: snapshot where
  "empty_snapshot = \<lparr>links_http = [], links_results = [], links_ved = [], links_attrid = [],
     links_paa = [], links_main = [], links_containers = [], links_organic = [], links_social = [],
     cite_texts = [], breadcrumb_texts = [], span_texts = [], urlclass_texts = []\<rparr>"

definition search_page :: "snapshot \<Rightarrow> page" where
  "search_page sn = \<lparr>loc_href = ''https://www.google.com/search?q=test'', loc_pathname = ''/search'',
                      page_snapshot = sn\<rparr>"

definition fixture_parse :: url_parser where
  \<comment> \<open>what \<open>new URL\<close> returns for the two URLs the scenarios use\<close>
  "fixture_parse u =
     (if u = ''http://a.org/x'' then
        Some \<lparr>url_protocol = ''http:'', url_hostname = ''a.org'', url_port = [], url_pathname = ''/x'', url_params = []\<rparr>
      else if u = ''https://a.org/x'' then
        Some \<lparr>url_protocol = ''https:'', url_hostname = ''a.org'', url_port = [], url_pathname = ''/x'', url_params = []\<rparr>
      else None)"

definition pf_fixture :: platform where
  "pf_fixture = \<lparr>pf_parse = fixture_parse, pf_decode = Some, pf_enc = (\<lambda>x. x)\<rparr>"

definition collecting :: "bool \<Rightarrow> content_state" where
  "collecting full = \<lparr>isAutoExtractEnabled = True, collectFullUrl = full, extractedDomains = [],
                       lastExtractTime = 0\<rparr>"

definition vps :: vps_config where
  "vps = \<lparr>vpsIp = ''203.0.113.7'', vpsPort = 9876\<rparr>"

definition env_up :: bg_env where
  "env_up = \<lparr>env_cfg = vps, env_post = (\<lambda>_. Response 200 True), env_ping = (\<lambda>_. Response 200 True),
             env_now = 5000\<rparr>"

definition env_down :: bg_env where
  "env_down = \<lparr>env_cfg = vps, env_post = (\<lambda>_. TimedOut), env_ping = (\<lambda>_. TimedOut), env_now = 1000\<rparr>"

definition env_nojson :: bg_env where
  \<comment> \<open>the collector accepts the POST over HTTP but answers with a body that is not JSON\<close>
  "env_nojson = \<lparr>env_cfg = vps, env_post = (\<lambda>p. if p = Http then Response 200 False else NetworkError),
                 env_ping = (\<lambda>_. NetworkError), env_now = 1000\<rparr>"

definition env_unconfigured :: bg_env where
  "env_unconfigured = \<lparr>env_cfg = \<lparr>vpsIp = [], vpsPort = 9876\<rparr>, env_post = (\<lambda>_. Response 200 True),
                        env_ping = (\<lambda>_. Response 200 True), env_now = 1000\<rparr>"

definition popup_blank :: popup_view where
  \<comment> \<open>the popup's form as \<open>popup.html\<close> first shows it\<close>
  "popup_blank = \<lparr>ip_value = [], port_value = ''9876'', full_url_checked = False, mode_label = ''Domain only'',
     collecting_shown = False, status_connected = False, status_text = ''Not configured'', connection_info = [],
     domains_count = 0, sent_count = 0, domain_items = [], max_pages_value = ''50'', page_delay_value = ''2000'',
     pagination_shown = False, current_page_text = ''0'', max_page_text = ''0'',
     save_label = ''Save & Start Collecting'', save_disabled = False, notification = None,
     isInitialized = False, isPaginationActive = False\<rparr>"

definition popup_form :: "js_string \<Rightarrow> js_string \<Rightarrow> popup_state" where
  "popup_form ip port = \<lparr>pv = popup_blank\<lparr>ip_value := ip, port_value := port\<rparr>, pstore = storage_empty\<rparr>"

definition cenv_fixture :: cenv where
  "cenv_fixture = \<lparr>ce_pf = pf_fixture, ce_now = 1000, ce_page = search_page empty_snapshot\<rparr>"

definition clock_fixture :: nav_clock where
  \<comment> \<open>checks every 200 ms from \<open>startTime\<close>, results present from the fourth check on\<close>
  "clock_fixture = \<lparr>nc_start = 0, nc_now = (\<lambda>k. 200 * int k), nc_loaded = (\<lambda>k. 3 \<le> k)\<rparr>"

lemmas fixtures = empty_snapshot_def search_page_def pf_fixture_def collecting_def vps_def
  env_up_def env_down_def env_nojson_def env_unconfigured_def


section \<open>Scenarios of the specification\<close>

text \<open>
  End to end, collector reachable: a search page whose captions show
  \<open>example.org\<close> and \<open>sub.example.org\<close>, extracted in domain mode with an empty
  session set, reports both; the storage merge keeps both, the worker posts them over
  HTTP, the sent counter becomes 2, nothing is pending and the delay is at its initial
  value.
\<close>

theorem e2e_delivery_success:
  "let (sy, out) = extract_step pf_fixture env_up 1000
          (search_page (empty_snapshot\<lparr>breadcrumb_texts := [''example.org'', ''sub.example.org'']\<rparr>))
          \<lparr>sys_content = collecting False, sys_stored = [], sys_bg = bg_init\<rparr>
   in extractedDomains (sys_content sy) = [''example.org'', ''sub.example.org''] \<and>
      sys_stored sy = [''example.org'', ''sub.example.org''] \<and>
      sentDomains (sys_bg sy) = 2 \<and> pendingDomains (sys_bg sy) = [] \<and>
      currentRetryDelay (sys_bg sy) = INITIAL_RETRY_DELAY \<and> connected (connectionStatus (sys_bg sy)) \<and>
      out = [Post Http [''example.org'', ''sub.example.org''] (Response 200 True), NotifySendSuccess 2]"
  by code_simp

text \<open>
  End to end, collector unreachable on both protocols: the batch is posted over
  HTTP and HTTPS, both time out, the batch is pending, the connection is down with an
  error, one retry timer is armed at 2000 ms and the delay has doubled to 4000 ms.
\<close>

theorem e2e_delivery_unreachable:
  "let (sy, out) = extract_step pf_fixture env_down 1000
          (search_page (empty_snapshot\<lparr>breadcrumb_texts := [''example.org'', ''sub.example.org'']\<rparr>))
          \<lparr>sys_content = collecting False, sys_stored = [], sys_bg = bg_init\<rparr>
   in pendingDomains (sys_bg sy) = [''example.org'', ''sub.example.org''] \<and>
      connected (connectionStatus (sys_bg sy)) = False \<and>
      lastError (connectionStatus (sys_bg sy)) = Some ''Connection failed'' \<and>
      timers (sys_bg sy) = [(1, 2000, RetryTask)] \<and> currentRetryDelay (sys_bg sy) = 4000 \<and>
      out = [Post Http [''example.org'', ''sub.example.org''] TimedOut,
             Post Https [''example.org'', ''sub.example.org''] TimedOut, NotifySendError 2]"
  by code_simp

text \<open>
  Delivery is at least once, not exactly once: when the collector accepts a POST
  with status 200 but its body is not JSON, the worker counts the attempt as failed,
  requeues the item and posts it again on the retry, so the collector receives it twice.
\<close>

theorem duplicate_delivery:
  "snd (bg_run [(env_nojson, SendToVps [''a.org'']), (env_up, Fire 1)] bg_init) =
     [Post Http [''a.org''] (Response 200 False), Post Https [''a.org''] NetworkError, NotifySendError 1,
      Post Http [''a.org''] (Response 200 True), NotifySendSuccess 1]"
  by (simp add: bg_eval fixtures Let_def)

text \<open>
  In full-URL mode the in-memory filter compares raw strings, not keys: a page
  linking to \<open>http://a.org/x\<close> and \<open>https://a.org/x\<close> reports and posts both, while the
  storage merge, which compares normalised keys, stores only the first.
\<close>

theorem full_url_double_report:
  "let (sy, out) = extract_step pf_fixture env_up 1000
          (search_page (empty_snapshot\<lparr>links_http := [''http://a.org/x'', ''https://a.org/x'']\<rparr>))
          \<lparr>sys_content = collecting True, sys_stored = [], sys_bg = bg_init\<rparr>
   in sys_stored sy = [''http://a.org/x''] \<and>
      out = [Post Http [''http://a.org/x'', ''https://a.org/x''] (Response 200 True), NotifySendSuccess 2]"
  by code_simp

text \<open>
  C14. The popup and the worker agree on the endpoint: after a save the popup accepted, the
  endpoint the worker reads from storage counts as configured (so sends are posted, not
  queued), and a content script that loads afterwards starts with extraction on.
\<close>

theorem popup_save_configures_worker:
  assumes "snd (onSaveConfig ps) \<noteq> []"
  shows "configured (worker_config (pstore (fst (onSaveConfig ps)))) \<and>
         isAutoExtractEnabled (core (content_init (pstore (fst (onSaveConfig ps)))))"
proof -
  let ?ip = "js_trim (ip_value (pv ps))"
  let ?p = "js_or_num (js_parseInt (js_trim (port_value (pv ps)))) 9876"
  from assms onSaveConfig_cases [of ps] have ok: "isValidHostname ?ip" "1 \<le> ?p"
    and st: "pstore (fst (onSaveConfig ps)) = (pstore ps)\<lparr>k_vpsIp := Some ?ip, k_vpsPort := Some ?p,
                                k_isCollecting := Some True, k_autoExtract := Some True\<rparr>"
    by (auto simp: Let_def)
  have "?ip \<noteq> []" using ok(1) by (simp add: isValidHostname_def split: if_splits)
  with ok(2) st show ?thesis
    by (simp add: worker_config_def configured_def content_init_def Let_def truthy_defs)
qed

text \<open>
  C15. Stop reaches every tab: after the popup's Stop button, the worker forwards
  \<open>AUTO_EXTRACT_CHANGED\<close> with \<open>enabled = false\<close> to the Google tabs, and the content script of
  each tab the query returned has extraction off; the stored flag is off too.
\<close>

theorem popup_stop_stops_tabs:
  assumes "t \<in> set ts"
  shows "let (ps', tabs') = popup_to_tabs env StopClick (Some ts) ps tabs
         in \<not> isAutoExtractEnabled (core (tabs' t)) \<and> k_isCollecting (pstore ps') = Some False"
proof -
  have sends: "concat (map (\<lambda>x. case worker_forward x of Some m \<Rightarrow> notifyAllTabs (Some ts) m | None \<Rightarrow> [])
                 (snd (onStopClick ps))) = map (\<lambda>t. (t, FwdAutoExtract False)) ts"
    by (simp add: onStopClick_def notifyAllTabs_def)
  have "\<not> isAutoExtractEnabled (core (broadcast env (map (\<lambda>t. (t, FwdAutoExtract False)) ts) tabs t))"
    by (rule broadcast_auto_off) (use assms in \<open>auto simp: image_image\<close>)
  with sends show ?thesis by (simp add: popup_to_tabs_def split_def onStopClick_def)
qed

text \<open>
  End to end, popup to worker and back: saving \<open>203.0.113.7\<close> and port \<open>9876\<close> with the
  collector answering the probe over HTTP shows "Connected via HTTP!", the status
  \<open>http://203.0.113.7:9876\<close>, re-enables the button, marks the worker connected, and stores
  the endpoint the worker then posts to.
\<close>

theorem save_and_test_scenario:
  "let (ps, s, eff) = save_and_test env_up (popup_form ''203.0.113.7'' ''9876'') bg_init
   in notification (pv ps) = Some (''Connected via HTTP!'', ''success'') \<and>
      status_connected (pv ps) \<and> connection_info (pv ps) = ''http://203.0.113.7:9876'' \<and>
      save_disabled (pv ps) = False \<and> connected (connectionStatus s) \<and>
      worker_config (pstore ps) = vps \<and> eff = [Ping Http (Response 200 True), TestResult (Some Http)]"
proof -
  have v: "isValidHostname ''203.0.113.7''" by code_simp
  have t: "js_trim ''203.0.113.7'' = ''203.0.113.7''" "js_trim ''9876'' = ''9876''" by code_simp+
  have p: "js_parseInt ''9876'' = Some 9876" by code_simp
  have sh: "js_show_int 9876 = ''9876''" by (simp add: js_show_eval)
  show ?thesis
    by (simp add: save_and_test_def onSaveConfig_def popup_form_def popup_blank_def v t p sh Let_def
        testConnection_def try_protocols_two protocols_def fixtures fetch_ok_def onConfigReply_def
        updateStatus_def showCollectingState_def showNotification_def protocol_upper_def worker_config_def
        js_or_num_def)
qed

text \<open>
  Two deliveries in flight at once: two \<open>SEND_TO_VPS\<close> messages arriving before the first
  call's storage read completes start two calls of \<open>sendDomainsToVPS\<close>, both suspended, where
  the specification allows at most one attempt in flight.
\<close>

theorem two_sends_in_flight:
  "let a = fst (async_run [(env_up, AEv (SendToVps [''a.org''])), (env_up, AEv (SendToVps [''b.org'']))] async_init)
   in map fst (calls a) = [0, 1] \<and> list_all (\<lambda>(i, ds, pc). in_flight pc) (calls a)"
  by (simp add: async_init_def start_send_def)

text \<open>
  C33. Lost update of the sent counter: from any worker state with no send in flight,
  two successful sends of non-empty batches whose reads of \<open>sentDomains\<close> both happen
  before either write leave the counter raised by the second batch's size only, although
  both batches were posted and reported as sent: each call writes back its own read
  value plus its batch size.
\<close>

theorem sent_counter_lost_update:
  assumes "calls a = []" and "configured (env_cfg env)" and "fetch_ok (env_post env Http)"
    and "\<not> useHttps (ab a)" and "ds1 \<noteq> []" and "ds2 \<noteq> []"
  shows "let i = next_call a;
             (a', out) = async_run (map (Pair env)
               [AEv (SendToVps ds1), AEv (SendToVps ds2), AResume i, AResume i, AResume (Suc i), AResume (Suc i),
                AResume i, AResume (Suc i), AResume i, AResume (Suc i)]) a
         in calls a' = [] \<and> sentDomains (ab a') = sentDomains (ab a) + length ds2 \<and>
            out = [Post Http ds1 (env_post env Http), Post Http ds2 (env_post env Http),
                   NotifySendSuccess (length ds1), NotifySendSuccess (length ds2)]"
  using assms by (simp add: async_defs protocols_def set_timeout_def Let_def)

text \<open>
  Every time collection is switched on, \<open>startAutoExtract\<close> creates one more
  \<open>MutationObserver\<close> and none is ever disconnected: on, off, on leaves two observers, and a
  single DOM mutation then runs the debounce callback twice.
\<close>

theorem observers_accumulate:
  "let (st, outs) = content_run [(cenv_fixture, CMessage (AutoExtractChanged True)),
                                 (cenv_fixture, CMessage (AutoExtractChanged False)),
                                 (cenv_fixture, CMessage (AutoExtractChanged True))] content_script_init
   in observers st = 2 \<and> cnext (fst (content_step cenv_fixture CMutation st)) = cnext st + 2"
  by (simp add: control_eval startAutoExtract_def mutation_callback_def numeral_2_eq_2)

text \<open>
  C7. Progress of the queue: once the collector answers over HTTP, the next run of the
  60 s \<open>setInterval\<close> sweep posts every pending item in one batch the worker counts as
  delivered, empties the queue and marks the connection up, whatever state the worker is in.
\<close>

theorem periodic_sweep_delivers:
  assumes "pendingDomains s \<noteq> []" and "configured (env_cfg env)" and "fetch_ok (env_post env Http)"
  shows "let (s', out) = bg_step env PeriodicRetry s in
         set (pendingDomains s) \<subseteq> (\<Union>x\<in>set out. accepted x) \<and> pendingDomains s' = [] \<and>
         connected (connectionStatus s')"
  using assms by (simp add: retryPendingDomains_def sendDomainsToVPS_def protocols_def send_success_def Let_def)

text \<open>
  C36. The mode switch awaits its storage write outside any \<open>try\<close>: when the write rejects,
  the switch and its label show the new mode, no notification is shown and no
  \<open>COLLECT_MODE_CHANGED\<close> is sent, while storage, and with it every content script loaded
  afterwards, keeps collecting in the old mode.
\<close>

theorem mode_switch_rejected_diverges:
  assumes "k_collectFullUrl (pstore ps) = Some (\<not> b)"
  shows "let (ps', out) = popup_step (StorageRejected (ModeWriteFails b)) ps in
         full_url_checked (pv ps') = b \<and> notification (pv ps') = notification (pv ps) \<and> out = [] \<and>
         collectFullUrl (core (content_init (pstore ps'))) = (\<not> b)"
  using assms by (simp add: onModeToggleRejected_def content_init_def c_set_timeout_def startAutoExtract_def
      truthy_bool_def Let_def)

section \<open>Witnesses\<close>

theorem extractDomains_twice_witness:
  "fst (snd (extractDomains pf_fixture 1000 (search_page (empty_snapshot\<lparr>breadcrumb_texts := [''example.org'']\<rparr>))
              (collecting False))) =
     filter (\<lambda>d. d \<notin> set (extractedDomains (collecting False)))
       (newDomains (run_strategies pf_fixture (collectFullUrl (collecting False))
          (page_snapshot (search_page (empty_snapshot\<lparr>breadcrumb_texts := [''example.org'']\<rparr>))))) \<and>
   snd (extractDomains pf_fixture 1600 (search_page (empty_snapshot\<lparr>breadcrumb_texts := [''example.org'']\<rparr>))
          (fst (extractDomains pf_fixture 1000 (search_page (empty_snapshot\<lparr>breadcrumb_texts := [''example.org'']\<rparr>))
                 (collecting False)))) = ([], [])"
  by (rule extractDomains_twice) (simp_all add: fixtures EXTRACT_INTERVAL_def isGoogleSearchPage_def)

theorem extractDomains_rate_limited_witness:
  "extractDomains pf_fixture 1200 (search_page empty_snapshot) ((collecting False)\<lparr>lastExtractTime := 1000\<rparr>) =
     ((collecting False)\<lparr>lastExtractTime := 1000\<rparr>, [], [])"
  by (rule extractDomains_rate_limited) (simp_all add: fixtures EXTRACT_INTERVAL_def)

theorem extractDomains_domain_mode_valid_witness:
  "list_all isValidDomain (fst (snd (extractDomains pf_fixture 1000
     (search_page (empty_snapshot\<lparr>breadcrumb_texts := [''example.org'']\<rparr>)) (collecting False))))"
  by (rule extractDomains_domain_mode_valid) (simp add: collecting_def)

theorem saveDomains_covers_witness:
  "(\<exists>d'\<in>set (saveDomains pf_fixture False [''example.org''] [''b.org'']). item_key pf_fixture False d' = Some ''b.org'') \<and>
   (\<exists>added. saveDomains pf_fixture False [''example.org''] [''b.org''] =
      saveDomains pf_fixture False [''example.org''] [] @ added \<and> set added \<subseteq> set [''b.org''])"
proof (rule saveDomains_covers [where d = "''b.org''"])
  show "''b.org'' \<in> set ([''example.org''] @ [''b.org''])" by simp
  show "item_key pf_fixture False ''b.org'' = Some ''b.org''" by code_simp
  show "''b.org'' \<noteq> []" by simp
qed

theorem sendDomainsToVPS_failure_witness:
  "let (s', out) = sendDomainsToVPS env_down [''example.org''] bg_init in
    pendingDomains s' = js_set (pendingDomains bg_init @ [''example.org'']) \<and>
    connectionStatus s' = \<lparr>connected = False, lastError = Some ''Connection failed'',
                           lastSuccess = lastSuccess (connectionStatus bg_init)\<rparr> \<and>
    retryTimeout s' = Some (next_handle bg_init) \<and>
    timers s' = (case retryTimeout bg_init of None \<Rightarrow> timers bg_init
                 | Some h \<Rightarrow> filter (\<lambda>(h', _). h' \<noteq> h) (timers bg_init))
                @ [(next_handle bg_init, currentRetryDelay bg_init, RetryTask)] \<and>
    currentRetryDelay s' = min (currentRetryDelay bg_init * 2) MAX_RETRY_DELAY \<and>
    sentDomains s' = sentDomains bg_init \<and>
    out = [Post Http [''example.org''] (env_post env_down Http), Post Https [''example.org''] (env_post env_down Https),
           NotifySendError (length (js_set (pendingDomains bg_init @ [''example.org''])))]"
  by (rule sendDomainsToVPS_failure) (simp_all add: fixtures configured_def fetch_ok_def)

theorem sendDomainsToVPS_success_witness:
  "let (s', out) = sendDomainsToVPS env_up [''example.org''] bg_init;
       p = (if fetch_ok (env_post env_up Http) then Http else Https) in
    connectionStatus s' = \<lparr>connected = True, lastError = None, lastSuccess = Some (env_now env_up)\<rparr> \<and>
    sentDomains s' = sentDomains bg_init + length [''example.org''] \<and>
    currentRetryDelay s' = INITIAL_RETRY_DELAY \<and>
    useHttps s' = (p = Https) \<and>
    pendingDomains s' = [] \<and>
    retryTimeout s' = retryTimeout bg_init \<and>
    timers s' = timers bg_init @ (if pendingDomains bg_init = [] then []
                                 else [(next_handle bg_init, 500, FlushTask (pendingDomains bg_init))]) \<and>
    out = (if p = Http then [Post Http [''example.org''] (env_post env_up Http)]
           else [Post Http [''example.org''] (env_post env_up Http), Post Https [''example.org''] (env_post env_up Https)])
          @ [NotifySendSuccess (length [''example.org''])]"
  by (rule sendDomainsToVPS_success) (simp_all add: fixtures configured_def fetch_ok_def)

theorem sendDomainsToVPS_unconfigured_witness:
  "sendDomainsToVPS env_unconfigured [''example.org''] bg_init =
     (bg_init\<lparr>pendingDomains := js_set (pendingDomains bg_init @ [''example.org''])\<rparr>, [])"
  by (rule sendDomainsToVPS_unconfigured) (simp_all add: fixtures configured_def)

theorem testConnection_resets_backoff_witness:
  "currentRetryDelay (fst (testConnection env_up bg_init)) = INITIAL_RETRY_DELAY \<and>
   pendingDomains (fst (testConnection env_up bg_init)) = pendingDomains bg_init \<and>
   timers (fst (testConnection env_up bg_init)) = timers bg_init"
  by (rule testConnection_resets_backoff) (simp add: fixtures fetch_ok_def)

theorem normalizeDomain_decorated_witness:
  "normalizeDomain ''example.org'' = Some ''example.org'' \<and>
   normalizeDomain (''https://www.'' @ ''example.org'' @ ''/'') = Some ''example.org''"
proof (rule normalizeDomain_decorated)
  show "isValidDomain ''example.org''" by code_simp
  show "\<not> starts_with ''example.org'' ''www.''" by simp
qed

theorem normalizeDomain_idem_witness:
  "normalizeDomain ''example.org'' = Some ''example.org''"
proof (rule normalizeDomain_idem)
  show "normalizeDomain ''HTTPS://www.Example.org/path'' = Some ''example.org''" by code_simp
  show "''example.org'' \<noteq> []" by simp
  show "\<forall>c\<in>set ''example.org''. \<not> is_js_ws c" by (simp add: is_js_ws_def)
  show "\<not> starts_with ''example.org'' ''www.''" by simp
qed

theorem url_key_drops_tracking_witness:
  "url_key (\<lambda>x. x) (\<lparr>url_protocol = ''https:'', url_hostname = ''www.a.org'', url_port = [], url_pathname = ''/p/'',
                     url_params = []\<rparr>\<lparr>url_params := [(''id'', ''7'')] @ (''UTM_Source'', ''news'') # []\<rparr>) =
   url_key (\<lambda>x. x) (\<lparr>url_protocol = ''https:'', url_hostname = ''www.a.org'', url_port = [], url_pathname = ''/p/'',
                     url_params = []\<rparr>\<lparr>url_params := [(''id'', ''7'')] @ []\<rparr>)"
proof -
  have "js_lower ''UTM_Source'' = ''utm_source''" by code_simp
  then have "\<forall>enc u xs ys v. url_key enc (u\<lparr>url_params := xs @ (''UTM_Source'', v) # ys\<rparr>) =
                              url_key enc (u\<lparr>url_params := xs @ ys\<rparr>)"
    using Normalizer.url_key_drops_tracking [of "''UTM_Source''"] by simp
  then show ?thesis by blast
qed

theorem save_reopen_save_witness:
  "let ps' = fst (onSaveConfig (popup_form ''203.0.113.7'' ''9876'')); ps'' = ps'\<lparr>pv := popup_load (pstore ps') popup_blank\<rparr>
   in pstore (fst (onSaveConfig ps'')) = pstore ps' \<and>
      snd (onSaveConfig ps'') = snd (onSaveConfig (popup_form ''203.0.113.7'' ''9876''))"
proof -
  have h: "snd (onSaveConfig (popup_form ''203.0.113.7'' ''9876'')) \<noteq> []"
    by (simp add: onSaveConfig_def popup_form_def popup_blank_def Let_def) code_simp
  show ?thesis
    using Popup.save_reopen_save [OF prod.collapse [symmetric] h, of popup_blank] by simp
qed

theorem onSaveConfig_zero_port_witness:
  "k_vpsPort (pstore (fst (onSaveConfig (popup_form ''203.0.113.7'' ''0'')))) = Some 9876 \<and>
   snd (onSaveConfig (popup_form ''203.0.113.7'' ''0'')) \<noteq> []"
proof -
  have a: "isValidHostname (js_trim (ip_value (pv (popup_form ''203.0.113.7'' ''0''))))"
    by (simp add: popup_form_def) code_simp
  have b: "js_parseInt (js_trim (port_value (pv (popup_form ''203.0.113.7'' ''0'')))) = Some 0"
    by (simp add: popup_form_def) code_simp
  show ?thesis using Popup.onSaveConfig_zero_port [OF a b] .
qed

theorem isValidHostname_iff_witness:
  "ip_pattern ''10.0.0.1'' \<and>
   (isValidHostname ''10.0.0.1'' \<longleftrightarrow>
      hostname_pattern ''10.0.0.1'' \<and> list_all octet_ok (split_char (CHR ''.'') ''10.0.0.1''))"
proof -
  have ip: "ip_pattern ''10.0.0.1''" by code_simp
  show ?thesis using Popup.isValidHostname_iff [of "''10.0.0.1''"] ip by simp
qed

theorem start_pagination_finishes_witness:
  "let (st1, outs) = content_step cenv_fixture (CMessage (StartPagination 3 500)) content_script_init in
   map_of (loops st1) 0 = Some AtLoopHead \<and>
   (\<exists>st' outs'. drive (3 * nat (js_or_num (Some 3) 50 - 1) + 3) (\<lambda>_. True) cenv_fixture 0 st1 = Some (st', outs') \<and>
      map_of (loops st') 0 = None \<and> (\<exists>k. CompleteMsg k \<in> set outs'))"
proof -
  have ok: "script_ok content_script_init" by (simp add: script_ok_def content_script_init_def)
  have idle: "\<not> isPaginationRunning content_script_init" by (simp add: content_script_init_def)
  show ?thesis using Control.start_pagination_finishes [OF ok idle, of cenv_fixture 3 500 "\<lambda>_. True" cenv_fixture]
    by (simp add: content_script_init_def)
qed

theorem content_run_stopped_witness:
  "\<forall>e. CEff e \<notin> set (snd (content_run [(cenv_fixture, CMessage ExtractNow), (cenv_fixture, CScroll),
                                       (cenv_fixture, CFire 1)] content_script_init))"
proof -
  have a: "\<not> isAutoExtractEnabled (core content_script_init)" by (simp add: content_script_init_def)
  have b: "\<forall>(env, ev) \<in> set [(cenv_fixture, CMessage ExtractNow), (cenv_fixture, CScroll), (cenv_fixture, CFire 1)].
             ev \<noteq> CMessage (AutoExtractChanged True)" by simp
  show ?thesis using Control.content_run_stopped [OF a b] .
qed

theorem async_send_refines_witness:
  "\<exists>a'. drive_call 6 env_up (next_call async_init) (start_send env_up [''a.org''] async_init) =
          Some (a', snd (sendDomainsToVPS env_up [''a.org''] (ab async_init))) \<and>
        ab a' = fst (sendDomainsToVPS env_up [''a.org''] (ab async_init)) \<and> calls a' = calls async_init"
proof -
  have a: "next_call async_init \<notin> set (map fst (calls async_init))" by (simp add: async_init_def)
  have b: "[''a.org''] \<noteq> []" by simp
  show ?thesis by (rule DeliveryAsync.async_send_refines [OF a b])
qed

theorem popup_save_configures_worker_witness:
  "configured (worker_config (pstore (fst (onSaveConfig (popup_form ''203.0.113.7'' ''9876''))))) \<and>
   isAutoExtractEnabled (core (content_init (pstore (fst (onSaveConfig (popup_form ''203.0.113.7'' ''9876''))))))"
proof -
  have h: "snd (onSaveConfig (popup_form ''203.0.113.7'' ''9876'')) \<noteq> []"
    by (simp add: onSaveConfig_def popup_form_def popup_blank_def Let_def) code_simp
  show ?thesis using popup_save_configures_worker [OF h] .
qed

theorem popup_stop_stops_tabs_witness:
  "let (ps', tabs') = popup_to_tabs cenv_fixture StopClick (Some [3, 7]) (popup_form [] [])
                        (\<lambda>_. content_init (onInstalled storage_empty\<lparr>k_autoExtract := Some True\<rparr>))
   in \<not> isAutoExtractEnabled (core (tabs' 7)) \<and> k_isCollecting (pstore ps') = Some False"
proof -
  have "(7::nat) \<in> set [3, 7]" by simp
  then show ?thesis by (rule popup_stop_stops_tabs)
qed

theorem periodic_sweep_delivers_witness:
  "let (s', out) = bg_step env_up PeriodicRetry (bg_init\<lparr>pendingDomains := [''a.org'']\<rparr>) in
   set [''a.org''] \<subseteq> (\<Union>x\<in>set out. accepted x) \<and> pendingDomains s' = [] \<and> connected (connectionStatus s')"
proof -
  have a: "pendingDomains (bg_init\<lparr>pendingDomains := [''a.org'']\<rparr>) \<noteq> []" by simp
  have b: "configured (env_cfg env_up)" by (simp add: fixtures configured_def)
  have c: "fetch_ok (env_post env_up Http)" by (simp add: fixtures fetch_ok_def)
  show ?thesis using periodic_sweep_delivers [OF a b c] by simp
qed

theorem waitForNavigation_returns_witness:
  "\<exists>k \<le> 51. waitForNavigation clock_fixture = Some k \<and>
     (10000 < nc_now clock_fixture k - nc_start clock_fixture \<or> nc_loaded clock_fixture k) \<and>
     (\<forall>i < k. nc_now clock_fixture i - nc_start clock_fixture \<le> 10000 \<and> \<not> nc_loaded clock_fixture i)"
proof -
  have "clock_ok clock_fixture" by (simp add: clock_ok_def clock_fixture_def)
  then show ?thesis by (rule Navigation.waitForNavigation_returns)
qed

theorem feedback_always_removable_witness:
  "fb_inv (fold fb_step [FbOut (CEff (ShowFeedback 2)), FbOut (PagFeedback ''Pagination started - Page 1''),
                         FbOut (CEff (ShowFeedback 3)), FbFire 0] overlays_init)"
  by (rule Feedback.feedback_always_removable)

theorem fire_fb_removes_only_own_witness:
  "let ov = fold fb_step [FbOut (CEff (ShowFeedback 2)), FbOut (CEff (ShowFeedback 3))] overlays_init in
   fb_slot CollectionFb (fire_fb 0 ov) = Some \<lparr>fb_serial = 1, fb_text = ''+3 domains collected''\<rparr> \<and>
   fb_slot CollectionFb (fire_fb 1 ov) = None"
proof -
  let ?ov = "fold fb_step [FbOut (CEff (ShowFeedback 2)), FbOut (CEff (ShowFeedback 3))] overlays_init"
  have sh: "js_show_int 3 = ''3''" "js_show_int 2 = ''2''" by (simp_all add: js_show_eval)
  have ov: "?ov = \<lparr>coll_fb = Some \<lparr>fb_serial = 1, fb_text = ''+3 domains collected''\<rparr>, pag_fb = None,
                   fb_timers = [(0, 2500, CollectionFb, 0), (1, 2500, CollectionFb, 1)], fb_next = 2\<rparr>"
    by (simp add: overlays_init_def showCollectionFeedback_def show_feedback_def set_slot_def sh)
  have inv: "fb_inv ?ov" unfolding ov by (auto simp: fb_inv_def fb_slot_def split: fb_kind.splits)
  have e: "fb_slot CollectionFb ?ov = Some \<lparr>fb_serial = 1, fb_text = ''+3 domains collected''\<rparr>"
    unfolding ov by (simp add: fb_slot_def)
  show ?thesis using Feedback.fire_fb_removes_only_own [OF inv e, of 0] Feedback.fire_fb_removes_only_own [OF inv e, of 1]
    by (simp add: Let_def)
qed

theorem mode_switch_rejected_diverges_witness:
  "let (ps', out) = popup_step (StorageRejected (ModeWriteFails True))
                      \<lparr>pv = popup_blank, pstore = storage_empty\<lparr>k_collectFullUrl := Some False\<rparr>\<rparr> in
   full_url_checked (pv ps') = True \<and> notification (pv ps') = notification popup_blank \<and> out = [] \<and>
   collectFullUrl (core (content_init (pstore ps'))) = False"
  using mode_switch_rejected_diverges [of "\<lparr>pv = popup_blank, pstore = storage_empty\<lparr>k_collectFullUrl := Some False\<rparr>\<rparr>" True]
  by simp

theorem failed_sweeps_backoff_witness:
  "currentRetryDelay (fst (bg_run (replicate 3 (env_down, PeriodicRetry)) (bg_init\<lparr>pendingDomains := [''a.org'']\<rparr>))) = 16000 \<and>
   map (\<lambda>(h, d, t). d) (filter (\<lambda>(h, d, t). t = RetryTask)
     (timers (fst (bg_run (replicate 3 (env_down, PeriodicRetry)) (bg_init\<lparr>pendingDomains := [''a.org'']\<rparr>))))) = [8000]"
proof -
  have "bg_inv (bg_init\<lparr>pendingDomains := [''a.org'']\<rparr>)"
    by (simp add: bg_inv_def bg_init_def INITIAL_RETRY_DELAY_def MAX_RETRY_DELAY_def)
  moreover have "configured (env_cfg env_down)" by (simp add: fixtures configured_def)
  moreover have "\<not> fetch_ok (env_post env_down Http)" "\<not> fetch_ok (env_post env_down Https)"
    by (simp_all add: fixtures fetch_ok_def)
  ultimately show ?thesis
    using Delivery.failed_sweeps_backoff [of "bg_init\<lparr>pendingDomains := [''a.org'']\<rparr>" env_down 2]
    by (simp add: bg_init_def INITIAL_RETRY_DELAY_def numeral_3_eq_3)
qed

theorem sent_counter_lost_update_witness:
  "let i = next_call async_init;
       (a', out) = async_run (map (Pair env_up)
         [AEv (SendToVps [''a.org'']), AEv (SendToVps [''b.org'', ''c.org'']), AResume i, AResume i, AResume (Suc i),
          AResume (Suc i), AResume i, AResume (Suc i), AResume i, AResume (Suc i)]) async_init
   in calls a' = [] \<and> sentDomains (ab a') = sentDomains (ab async_init) + length [''b.org'', ''c.org''] \<and>
      out = [Post Http [''a.org''] (env_post env_up Http), Post Http [''b.org'', ''c.org''] (env_post env_up Http),
             NotifySendSuccess (length [''a.org'']), NotifySendSuccess (length [''b.org'', ''c.org''])]"
  by (rule sent_counter_lost_update) (simp_all add: async_init_def bg_init_def fixtures configured_def fetch_ok_def)

theorem goToNextPage_goes_back_witness:
  \<open>goToNextPage
     \<lparr>nd_query = (\<lambda>sel. if sel = ''.d6cvqb a[aria-label="Page 2"]'' then QElem (Some ''https://www.google.com/search?q=x&start=10'')
                         else if sel = ''a[aria-label="Page 4"]'' then QElem (Some ''https://www.google.com/search?q=x&start=30'')
                         else QNone),
      nd_start_links = [''https://www.google.com/search?q=x&start=10'', ''https://www.google.com/search?q=x&start=30'']\<rparr> 3
   = ClickSelector ''.d6cvqb a[aria-label="Page 2"]''\<close>
  by (rule Navigation.goToNextPage_goes_back) auto


end
